theory Spec2Isabelle
  imports
    Main
    "HOL-Library.Char_ord"
    "HOL-Library.List_Lexorder"
    "HOL-Library.Log_Nat"
    "HOL-Library.Monad_Syntax"
begin

section \<open>Python values used by the tide scrapers\<close>

text \<open>
  The two scripts \<^verbatim>\<open>scripts/tide_scraper.py\<close> (feed pipeline) and
  \<^verbatim>\<open>scripts/tide_scraper_week.py\<close> (day-page pipeline) are embedded as HOL functions.
  A Python \<^verbatim>\<open>str\<close> is a \<^typ>\<open>string\<close>; a \<^typ>\<open>char\<close> stands for a code point below 256.
  In that range the regular-expression class \<^verbatim>\<open>\d\<close> is exactly the ASCII digits and
  \<^verbatim>\<open>\s\<close>, like \<^verbatim>\<open>str.strip\<close>, accepts the twelve code points listed in \<open>is_space\<close>.
  Exceptions are values of \<open>py_error\<close>; the text printed by \<^verbatim>\<open>print\<close> is a list of
  \<open>log_msg\<close> events.
\<close>

datatype py_error = ValueError | AttributeError | UnboundLocalError | OverflowError

definition is_digit :: "char \<Rightarrow> bool" where
  "is_digit c = (c \<in> set ''0123456789'')"

definition is_space :: "char \<Rightarrow> bool" where
  "is_space c = (of_char c \<in> set [9, 10, 11, 12, 13, 28, 29, 30, 31, 32, 133, 160 :: nat])"

definition digit_val :: "char \<Rightarrow> nat" where
  "digit_val c = of_char c - 48"

fun digits_val :: "nat \<Rightarrow> string \<Rightarrow> nat" where
  "digits_val acc [] = acc"
| "digits_val acc (c # cs) = digits_val (10 * acc + digit_val c) cs"

text \<open>\<^verbatim>\<open>int(s)\<close> on a string of ASCII digits.\<close>

definition py_int :: "string \<Rightarrow> nat" where
  "py_int s = digits_val 0 s"

text \<open>\<^verbatim>\<open>str.strip()\<close>: leading and trailing white space removed.\<close>

definition strip :: "string \<Rightarrow> string" where
  "strip s = rev (dropWhile is_space (rev (dropWhile is_space s)))"

text \<open>
  \<^verbatim>\<open>str.splitlines()\<close>: the line boundaries below 256 are LF, CR, CR LF, VT, FF, FS, GS, RS
  and NEL; a final line break opens no further line.
\<close>

definition is_linebreak :: "char \<Rightarrow> bool" where
  "is_linebreak c = (of_char c \<in> set [10, 11, 12, 13, 28, 29, 30, 133 :: nat])"

fun splitlines_from :: "string \<Rightarrow> string \<Rightarrow> string list" where
  "splitlines_from cur [] = (if cur = [] then [] else [rev cur])"
| "splitlines_from cur [c] =
     (if is_linebreak c then [rev cur] else [rev (c # cur)])"
| "splitlines_from cur (c # d # cs) =
     (if c = CHR 0x0D \<and> d = CHR 0x0A then rev cur # splitlines_from [] cs
      else if is_linebreak c then rev cur # splitlines_from [] (d # cs)
      else splitlines_from (c # cur) (d # cs))"

definition splitlines :: "string \<Rightarrow> string list" where
  "splitlines s = splitlines_from [] s"

text \<open>\<^verbatim>\<open>s.replace('m', '')\<close>: every occurrence of the letter is removed.\<close>

definition remove_m :: "string \<Rightarrow> string" where
  "remove_m s = filter (\<lambda>c. c \<noteq> CHR ''m'') s"

section \<open>Regular expressions of the feed pipeline\<close>

text \<open>
  \<^verbatim>\<open>re.sub('<[^<]+?>', '\n', description)\<close>. A match starts at a \<^verbatim>\<open><\<close>, takes one character
  other than \<^verbatim>\<open><\<close> (it may be \<^verbatim>\<open>>\<close>), and then, lazily, the shortest run of characters
  other than \<^verbatim>\<open><\<close> that is followed by \<^verbatim>\<open>>\<close>. \<open>tag_rest\<close> looks for that closing
  \<^verbatim>\<open>>\<close> and returns what follows it. Where no match starts at a character, the character
  is kept and the scan goes on from the next one.
\<close>

fun tag_rest :: "string \<Rightarrow> string option" where
  "tag_rest [] = None"
| "tag_rest (c # cs) =
     (if c = CHR ''>'' then Some cs else if c = CHR ''<'' then None else tag_rest cs)"

definition tag_at :: "string \<Rightarrow> string option" where
  "tag_at s =
     (case s of
        c # d # ds \<Rightarrow> if c = CHR ''<'' \<and> d \<noteq> CHR ''<'' then tag_rest ds else None
      | _ \<Rightarrow> None)"

function re_sub_tags :: "string \<Rightarrow> string" where
  "re_sub_tags [] = []"
| "re_sub_tags (c # cs) =
     (case tag_at (c # cs) of
        Some r \<Rightarrow> CHR 0x0A # re_sub_tags r
      | None \<Rightarrow> c # re_sub_tags cs)"
  by pat_completeness auto
termination
proof (relation "measure length")
  show "wf (measure length)" by simp
next
  fix c :: char and cs r :: string
  assume a: "tag_at (c # cs) = Some r"
  have tr: "\<And>xs ys. tag_rest xs = Some ys \<Longrightarrow> length ys < length xs"
  proof -
    fix xs ys
    show "tag_rest xs = Some ys \<Longrightarrow> length ys < length xs"
      by (induction xs) (auto split: if_splits)
  qed
  from a obtain d ds where "cs = d # ds" and "tag_rest ds = Some r"
    by (auto simp: tag_at_def split: list.splits if_splits)
  with tr [of ds r] show "(r, c # cs) \<in> measure length" by simp
next
  fix c :: char and cs :: string
  show "(cs, c # cs) \<in> measure length" by simp
qed

text \<open>
  The tide-line pattern
  \<^verbatim>\<open>(\d{2}:\d{2})\s+-\s+(High|Low)\s+Tide\s+(?:&#x28;|\()([\d\.]+m)(?:&#x29;|\))\<close>,
  one function per piece, each returning the captured text (if it is a group) and the
  rest of the line. Every greedy repetition is followed by a character outside its
  class (\<^verbatim>\<open>\s+\<close> by \<^verbatim>\<open>-\<close>, \<^verbatim>\<open>H\<close>, \<^verbatim>\<open>L\<close>, \<^verbatim>\<open>T\<close>, \<^verbatim>\<open>&\<close> or \<^verbatim>\<open>(\<close>; the height class by
  \<^verbatim>\<open>m\<close>) and the alternatives start with different characters, so at a given start
  position only the longest repetition can lead to a match and no backtracking is
  modelled.
\<close>

definition lit :: "string \<Rightarrow> string \<Rightarrow> string option" where
  "lit p s = (if take (length p) s = p then Some (drop (length p) s) else None)"

definition ws1 :: "string \<Rightarrow> string option" where
  "ws1 s = (case s of [] \<Rightarrow> None
            | c # cs \<Rightarrow> if is_space c then Some (dropWhile is_space cs) else None)"

definition time_group :: "string \<Rightarrow> (string \<times> string) option" where
  "time_group s =
     (case s of
        a # b # c # d # e # r \<Rightarrow>
          if is_digit a \<and> is_digit b \<and> c = CHR '':'' \<and> is_digit d \<and> is_digit e
          then Some ([a, b, c, d, e], r) else None
      | _ \<Rightarrow> None)"

definition type_group :: "string \<Rightarrow> (string \<times> string) option" where
  "type_group s =
     (case lit ''High'' s of
        Some r \<Rightarrow> Some (''High'', r)
      | None \<Rightarrow> (case lit ''Low'' s of Some r \<Rightarrow> Some (''Low'', r) | None \<Rightarrow> None))"

definition open_paren :: "string \<Rightarrow> string option" where
  "open_paren s = (case lit ''&#x28;'' s of Some r \<Rightarrow> Some r | None \<Rightarrow> lit ''('' s)"

definition close_paren :: "string \<Rightarrow> string option" where
  "close_paren s = (case lit ''&#x29;'' s of Some r \<Rightarrow> Some r | None \<Rightarrow> lit '')'' s)"

definition is_height_char :: "char \<Rightarrow> bool" where
  "is_height_char c = (is_digit c \<or> c = CHR ''.'')"

definition height_group :: "string \<Rightarrow> (string \<times> string) option" where
  "height_group s =
     (let h = takeWhile is_height_char s; r = dropWhile is_height_char s
      in if h \<noteq> [] \<and> take 1 r = ''m'' then Some (h @ ''m'', drop 1 r) else None)"

definition tide_match_at :: "string \<Rightarrow> (string \<times> string \<times> string) option" where
  "tide_match_at s =
     do {
       (t, r1) \<leftarrow> time_group s;
       r2 \<leftarrow> ws1 r1;
       r3 \<leftarrow> lit ''-'' r2;
       r4 \<leftarrow> ws1 r3;
       (ty, r5) \<leftarrow> type_group r4;
       r6 \<leftarrow> ws1 r5;
       r7 \<leftarrow> lit ''Tide'' r6;
       r8 \<leftarrow> ws1 r7;
       r9 \<leftarrow> open_paren r8;
       (h, r10) \<leftarrow> height_group r9;
       r11 \<leftarrow> close_paren r10;
       Some (t, ty, h)
     }"

text \<open>\<^verbatim>\<open>re.search\<close>: the match at the leftmost start position.\<close>

fun re_search_tide :: "string \<Rightarrow> (string \<times> string \<times> string) option" where
  "re_search_tide [] = None"
| "re_search_tide (c # cs) =
     (case tide_match_at (c # cs) of Some g \<Rightarrow> Some g | None \<Rightarrow> re_search_tide cs)"

section \<open>Floating-point numbers\<close>

text \<open>
  A Python \<^verbatim>\<open>float\<close> is an IEEE 754 double: \<open>Finite q\<close> carries the exact rational value
  of a finite double (the sign of a zero is not recorded), the other constructors are
  the two infinities and not-a-number. \<open>to_double\<close> rounds a rational to the nearest
  double, ties to the even significand: 53 significant bits, least exponent \<open>-1022\<close>
  (below it the spacing stays \<open>2 powi -1074\<close>), and a result of magnitude \<open>2 ^ 1024\<close> or
  more overflows to an infinity.
\<close>

datatype pyfloat = Finite rat | PInf | NInf | NaN

definition round_half_even :: "rat \<Rightarrow> int" where
  "round_half_even q =
     (let f = \<lfloor>q\<rfloor>; r = q - of_int f
      in if r < 1 / 2 then f else if 1 / 2 < r then f + 1
         else if even f then f else f + 1)"

text \<open>\<open>ilog2 a\<close> is the exponent of the leading bit of a positive rational.\<close>

definition ilog2 :: "rat \<Rightarrow> int" where
  "ilog2 a =
     (let (p, q) = quotient_of a; d = bitlen p - bitlen q
      in if 2 powi d \<le> a then d else d - 1)"

text \<open>
  For a rational other than zero, \<open>dbl_exp\<close> is the exponent of the binade it is rounded
  in and \<open>dbl_mant\<close> the integer significand it is rounded to, in units of
  \<open>2 powi (dbl_exp q - 52)\<close>. \<open>max_double\<close> is the largest finite double.
\<close>

definition dbl_exp :: "rat \<Rightarrow> int" where
  "dbl_exp q = max (ilog2 \<bar>q\<bar>) (- 1022)"

definition dbl_mant :: "rat \<Rightarrow> int" where
  "dbl_mant q = round_half_even (\<bar>q\<bar> / 2 powi (dbl_exp q - 52))"

definition max_double :: rat where
  "max_double = 2 powi 1024 - 2 powi 971"

definition to_double :: "rat \<Rightarrow> pyfloat" where
  "to_double q =
     (if q = 0 then Finite 0
      else
        let v = of_int (dbl_mant q) * 2 powi (dbl_exp q - 52)
        in if 2 ^ 1024 \<le> v then (if q < 0 then NInf else PInf)
           else Finite (if q < 0 then - v else v))"

text \<open>
  \<^verbatim>\<open>round(x, 2)\<close>: infinities and not-a-number are returned as they are; a finite value
  is rounded to two decimals on its exact value, ties to even, and the decimal is
  converted back to a double. CPython raises \<^verbatim>\<open>OverflowError\<close> when that conversion
  overflows.
\<close>

definition py_round2 :: "pyfloat \<Rightarrow> py_error + pyfloat" where
  "py_round2 x =
     (case x of
        Finite q \<Rightarrow>
          (case to_double (of_int (round_half_even (q * 100)) / 100) of
             Finite v \<Rightarrow> Inr (Finite v)
           | _ \<Rightarrow> Inl OverflowError)
      | _ \<Rightarrow> Inr x)"

text \<open>
  \<^verbatim>\<open>float(s)\<close> on a string. White space is stripped at both ends (tab, LF, VT, FF, CR,
  space, and NEL and NBSP, which CPython turns into spaces first). An underscore must
  stand between two digits. What remains is an optional sign and either a decimal
  numeral with an optional exponent, or one of \<^verbatim>\<open>inf\<close>, \<^verbatim>\<open>infinity\<close>, \<^verbatim>\<open>nan\<close> in any
  letter case. Anything else raises \<^verbatim>\<open>ValueError\<close>.
\<close>

definition float_ws :: "char \<Rightarrow> bool" where
  "float_ws c = (of_char c \<in> set [9, 10, 11, 12, 13, 32, 133, 160 :: nat])"

definition float_strip :: "string \<Rightarrow> string" where
  "float_strip s = rev (dropWhile float_ws (rev (dropWhile float_ws s)))"

fun underscores_ok :: "char \<Rightarrow> string \<Rightarrow> bool" where
  "underscores_ok prev [] = (prev \<noteq> CHR ''_'')"
| "underscores_ok prev (c # cs) =
     ((if c = CHR ''_'' then is_digit prev
       else if prev = CHR ''_'' then is_digit c else True)
      \<and> underscores_ok c cs)"

definition split_sign :: "string \<Rightarrow> bool \<times> string" where
  "split_sign s =
     (case s of
        [] \<Rightarrow> (False, [])
      | c # cs \<Rightarrow> if c = CHR ''-'' then (True, cs)
                 else if c = CHR ''+'' then (False, cs) else (False, s))"

definition parse_exponent :: "string \<Rightarrow> int option" where
  "parse_exponent r =
     (case r of
        [] \<Rightarrow> Some 0
      | c # cs \<Rightarrow>
          if c = CHR ''e'' \<or> c = CHR ''E'' then
            (let (neg, ds) = split_sign cs
             in if ds \<noteq> [] \<and> list_all is_digit ds
                then Some (if neg then - int (digits_val 0 ds) else int (digits_val 0 ds))
                else None)
          else None)"

definition parse_decimal :: "string \<Rightarrow> rat option" where
  "parse_decimal s =
     (let ip = takeWhile is_digit s;
          r1 = dropWhile is_digit s;
          fp = (case r1 of [] \<Rightarrow> []
                | c # cs \<Rightarrow> if c = CHR ''.'' then takeWhile is_digit cs else []);
          r2 = (case r1 of [] \<Rightarrow> []
                | c # cs \<Rightarrow> if c = CHR ''.'' then dropWhile is_digit cs else r1)
      in if ip = [] \<and> fp = [] then None
         else (case parse_exponent r2 of
                 None \<Rightarrow> None
               | Some e \<Rightarrow>
                   Some (of_nat (digits_val 0 (ip @ fp)) * 10 powi (e - int (length fp)))))"

definition ascii_lower :: "char \<Rightarrow> char" where
  "ascii_lower c =
     (if 65 \<le> (of_char c :: nat) \<and> (of_char c :: nat) \<le> 90
      then char_of (of_char c + 32 :: nat) else c)"

definition py_float :: "string \<Rightarrow> py_error + pyfloat" where
  "py_float s =
     (let t = float_strip s
      in if \<not> underscores_ok (CHR 0x00) t then Inl ValueError
         else
           let (neg, body) = split_sign (filter (\<lambda>c. c \<noteq> CHR ''_'') t)
           in (case parse_decimal body of
                 Some q \<Rightarrow> Inr (to_double (if neg then - q else q))
               | None \<Rightarrow>
                   if map ascii_lower body = ''inf'' \<or> map ascii_lower body = ''infinity''
                   then Inr (if neg then NInf else PInf)
                   else if map ascii_lower body = ''nan'' then Inr NaN
                   else Inl ValueError))"

section \<open>Dates, times and the time zone\<close>

text \<open>
  A \<^verbatim>\<open>date\<close> is a \<open>py_date\<close>; a naive \<^verbatim>\<open>datetime\<close> of the scrapers has no seconds, so
  \<open>py_datetime\<close> stops at the minute. \<open>datetime_new\<close> is \<^verbatim>\<open>datetime(y, m, d)\<close> and
  \<open>replace_time\<close> is \<^verbatim>\<open>.replace(hour=h, minute=mi)\<close>; both raise \<^verbatim>\<open>ValueError\<close> on a
  field out of range.
\<close>

record py_date =
  d_year :: int
  d_month :: int
  d_day :: int

record py_datetime =
  dt_year :: int
  dt_month :: int
  dt_day :: int
  dt_hour :: int
  dt_minute :: int

definition is_leap :: "int \<Rightarrow> bool" where
  "is_leap y = (y mod 4 = 0 \<and> (y mod 100 \<noteq> 0 \<or> y mod 400 = 0))"

definition days_in_month :: "int \<Rightarrow> int \<Rightarrow> int" where
  "days_in_month y m =
     (if m = 2 then (if is_leap y then 29 else 28)
      else if m = 4 \<or> m = 6 \<or> m = 9 \<or> m = 11 then 30 else 31)"

definition valid_date :: "int \<Rightarrow> int \<Rightarrow> int \<Rightarrow> bool" where
  "valid_date y m d =
     (1 \<le> y \<and> y \<le> 9999 \<and> 1 \<le> m \<and> m \<le> 12 \<and> 1 \<le> d \<and> d \<le> days_in_month y m)"

definition datetime_new :: "int \<Rightarrow> int \<Rightarrow> int \<Rightarrow> py_error + py_datetime" where
  "datetime_new y m d =
     (if valid_date y m d
      then Inr \<lparr>dt_year = y, dt_month = m, dt_day = d, dt_hour = 0, dt_minute = 0\<rparr>
      else Inl ValueError)"

definition replace_time :: "py_datetime \<Rightarrow> int \<Rightarrow> int \<Rightarrow> py_error + py_datetime" where
  "replace_time dt h mi =
     (if 0 \<le> h \<and> h \<le> 23 \<and> 0 \<le> mi \<and> mi \<le> 59
      then Inr (dt\<lparr>dt_hour := h, dt_minute := mi\<rparr>)
      else Inl ValueError)"

text \<open>
  A \<^verbatim>\<open>tzinfo\<close> is the function \<^verbatim>\<open>utcoffset\<close> from a naive local time to seconds east of
  UTC. \<^verbatim>\<open>.replace(tzinfo=tz)\<close> attaches it without changing the fields, and
  \<^verbatim>\<open>isoformat()\<close> prints the fields, zero seconds and the offset; an offset of a whole
  day or more raises \<^verbatim>\<open>ValueError\<close>.
\<close>

type_synonym tzinfo = "py_datetime \<Rightarrow> int"

definition digit_char :: "nat \<Rightarrow> char" where
  "digit_char n = ''0123456789'' ! (n mod 10)"

fun show_nat :: "nat \<Rightarrow> string" where
  "show_nat n = (if n < 10 then [digit_char n] else show_nat (n div 10) @ [digit_char n])"

definition pad :: "nat \<Rightarrow> int \<Rightarrow> string" where
  "pad w n = replicate (w - length (show_nat (nat n))) (CHR ''0'') @ show_nat (nat n)"

definition format_offset :: "int \<Rightarrow> string" where
  "format_offset off =
     (let a = \<bar>off\<bar>
      in (if off < 0 then ''-'' else ''+'') @ pad 2 (a div 3600) @ '':'' @
         pad 2 (a mod 3600 div 60) @
         (if a mod 60 \<noteq> 0 then '':'' @ pad 2 (a mod 60) else []))"

definition isoformat :: "tzinfo \<Rightarrow> py_datetime \<Rightarrow> py_error + string" where
  "isoformat tz dt =
     (let off = tz dt
      in if off \<le> - 86400 \<or> 86400 \<le> off then Inl ValueError
         else Inr (pad 4 (dt_year dt) @ ''-'' @ pad 2 (dt_month dt) @ ''-'' @
                   pad 2 (dt_day dt) @ ''T'' @ pad 2 (dt_hour dt) @ '':'' @
                   pad 2 (dt_minute dt) @ '':00'' @ format_offset off))"

text \<open>
  Modelled from the spec: the zone table behind \<^verbatim>\<open>ZoneInfo("Europe/London")\<close> is not part
  of the repository; the spec asks for a real IANA zone with daylight-saving rules. The
  rule in force for London since 1996 is \<^verbatim>\<open>GMT0BST,M3.5.0/1,M10.5.0\<close>: summer time from
  01:00 UTC on the last Sunday of March to 01:00 UTC on the last Sunday of October. A
  naive local time is resolved as \<^verbatim>\<open>zoneinfo\<close> does with \<^verbatim>\<open>fold=0\<close>: summer time applies
  from 02:00 on the March Sunday (the skipped hour 01:00 to 01:59 still gets the
  winter offset) up to, not including, 02:00 on the October Sunday. \<open>ymd2ord\<close> and
  \<open>weekday\<close> are the proleptic Gregorian day number and the day of the week (Monday is
  0) of \<^verbatim>\<open>datetime\<close>; \<open>last_sunday\<close> is meant for the months of 31 days.
\<close>

definition days_before_year :: "int \<Rightarrow> int" where
  "days_before_year y =
     (let z = y - 1 in z * 365 + z div 4 - z div 100 + z div 400)"

definition days_before_month :: "int \<Rightarrow> int \<Rightarrow> int" where
  "days_before_month y m =
     [0, 31, 59, 90, 120, 151, 181, 212, 243, 273, 304, 334] ! nat (m - 1) +
     (if 2 < m \<and> is_leap y then 1 else 0)"

definition ymd2ord :: "int \<Rightarrow> int \<Rightarrow> int \<Rightarrow> int" where
  "ymd2ord y m d = days_before_year y + days_before_month y m + d"

definition weekday :: "int \<Rightarrow> int \<Rightarrow> int \<Rightarrow> int" where
  "weekday y m d = (ymd2ord y m d + 6) mod 7"

definition last_sunday :: "int \<Rightarrow> int \<Rightarrow> int" where
  "last_sunday y m = 31 - (weekday y m 31 + 1) mod 7"

definition europe_london :: tzinfo where
  "europe_london dt =
     (let y = dt_year dt; m = dt_month dt; d = dt_day dt; h = dt_hour dt;
          s = last_sunday y 3; e = last_sunday y 10
      in if (3 < m \<or> (m = 3 \<and> (s < d \<or> (d = s \<and> 2 \<le> h))))
            \<and> (m < 10 \<or> (m = 10 \<and> (d < e \<or> (d = e \<and> h < 2))))
         then 3600 else 0)"

section \<open>Records, log and loops\<close>

record tide_record =
  tide_time :: string
  tide_type :: string
  height_m :: pyfloat

datatype log_msg =
    FetchingFeed
  | EmptyFeedWarning
  | SkippingEntryNoDate "string option"
  | ErrorProcessingLine string py_error
  | NoRecordsToInsert
  | PreparedRecords nat
  | UpsertSucceeded
  | UpsertFailed
  | FetchingDay string
  | FetchError string
  | NoTideContainer string
  | SkippingRecord string py_error
  | NoRecordsCollected
  | CollectedRecords nat

text \<open>
  A function that may raise returns \<open>Inl\<close> of the exception or \<open>Inr\<close> of its value,
  paired with what it has printed. \<open>bind_err\<close> runs the next statement unless an
  exception is under way; \<open>for_each\<close> is a \<^verbatim>\<open>for\<close> loop whose body appends records to a
  list: an exception that leaves the body ends the loop and is passed on.
\<close>

fun bind_err :: "'e + 'a \<Rightarrow> ('a \<Rightarrow> 'e + 'b) \<Rightarrow> 'e + 'b" where
  "bind_err (Inl e) f = Inl e"
| "bind_err (Inr x) f = f x"

fun for_each ::
  "('a \<Rightarrow> (py_error + 'r list) \<times> log_msg list) \<Rightarrow> 'a list
    \<Rightarrow> (py_error + 'r list) \<times> log_msg list" where
  "for_each f [] = (Inr [], [])"
| "for_each f (x # xs) =
     (case f x of
        (Inl e, lg) \<Rightarrow> (Inl e, lg)
      | (Inr rs, lg) \<Rightarrow>
          (case for_each f xs of
             (Inl e, lg') \<Rightarrow> (Inl e, lg @ lg')
           | (Inr rs', lg') \<Rightarrow> (Inr (rs @ rs'), lg @ lg')))"

section \<open>The feed pipeline: \<^verbatim>\<open>tide_scraper.py\<close>\<close>

text \<open>
  An entry of the parsed feed: \<^verbatim>\<open>published_parsed\<close> is \<^verbatim>\<open>None\<close> or a time tuple, of which
  only year, month and day are read; \<^verbatim>\<open>entry.get("description", "")\<close> reads the
  description.
\<close>

type_synonym date_tuple = "int \<times> int \<times> int"

record entry =
  published_parsed :: "date_tuple option"
  title :: "string option"
  description :: "string option"

text \<open>
  \<^verbatim>\<open>tide_time_only.split(':')\<close>, on the five characters the pattern captures, gives the
  two digits before and the two after the colon; \<^verbatim>\<open>int\<close> of two digits is their value.
  \<open>feed_try\<close> is the body of the \<^verbatim>\<open>try\<close> block in the order of the source: the height,
  the date, hour and minute, the zone and the ISO string, and the rounding when the
  record is built.
\<close>

definition feed_try :: "tzinfo \<Rightarrow> date_tuple \<Rightarrow> string \<times> string \<times> string \<Rightarrow> py_error + tide_record" where
  "feed_try london_tz date_tuple g =
     (case g of (tide_time_only, type_token, height_str) \<Rightarrow>
      bind_err (py_float (remove_m height_str)) (\<lambda>height_m.
      bind_err (case date_tuple of (y, m, d) \<Rightarrow> datetime_new y m d) (\<lambda>event_date.
      let tide_hour = int (py_int (takeWhile (\<lambda>c. c \<noteq> CHR '':'') tide_time_only));
          tide_minute = int (py_int (drop 1 (dropWhile (\<lambda>c. c \<noteq> CHR '':'') tide_time_only)))
      in
      bind_err (replace_time event_date tide_hour tide_minute) (\<lambda>naive_dt.
      bind_err (isoformat london_tz naive_dt) (\<lambda>tide_iso_time.
      bind_err (py_round2 height_m) (\<lambda>rounded.
      Inr \<lparr>tide_time = tide_iso_time, tide_type = type_token, height_m = rounded\<rparr>))))))"

text \<open>
  One pass of the loop over the lines: the line is stripped and searched; without a
  match the loop goes on; \<^verbatim>\<open>except (ValueError, AttributeError)\<close> prints the line and
  goes on, any other exception leaves the loop.
\<close>

definition feed_line ::
  "tzinfo \<Rightarrow> date_tuple \<Rightarrow> string \<Rightarrow> (py_error + tide_record list) \<times> log_msg list" where
  "feed_line london_tz date_tuple raw =
     (let line = strip raw
      in case re_search_tide line of
           None \<Rightarrow> (Inr [], [])
         | Some g \<Rightarrow>
             (case feed_try london_tz date_tuple g of
                Inr r \<Rightarrow> (Inr [r], [])
              | Inl e \<Rightarrow>
                  if e = ValueError \<or> e = AttributeError
                  then (Inr [], [ErrorProcessingLine line e])
                  else (Inl e, [])))"

definition feed_entry ::
  "tzinfo \<Rightarrow> entry \<Rightarrow> (py_error + tide_record list) \<times> log_msg list" where
  "feed_entry london_tz e =
     (case published_parsed e of
        None \<Rightarrow> (Inr [], [SkippingEntryNoDate (title e)])
      | Some date_tuple \<Rightarrow>
          (let clean_text = re_sub_tags (case description e of None \<Rightarrow> [] | Some s \<Rightarrow> s)
           in for_each (feed_line london_tz date_tuple) (splitlines clean_text)))"

text \<open>
  \<^verbatim>\<open>{r['tide_time']: r for r in records}\<close>: a dictionary keeps its keys in the order of
  their first insertion, and a later value replaces an earlier one in place.
  \<^verbatim>\<open>list(....values())\<close> reads the values in that order; \<^verbatim>\<open>sort(key=...)\<close> is a stable
  sort on the \<^verbatim>\<open>tide_time\<close> strings, which Python compares code point by code point.
\<close>

fun dict_set :: "('k \<times> 'v) list \<Rightarrow> 'k \<Rightarrow> 'v \<Rightarrow> ('k \<times> 'v) list" where
  "dict_set [] k v = [(k, v)]"
| "dict_set ((k', v') # d) k v =
     (if k' = k then (k', v) # d else (k', v') # dict_set d k v)"

definition unique_records :: "tide_record list \<Rightarrow> tide_record list" where
  "unique_records records =
     map snd (foldl (\<lambda>d r. dict_set d (tide_time r) r) [] records)"

definition parse_tide_feed ::
  "tzinfo \<Rightarrow> entry list \<Rightarrow> (py_error + tide_record list) \<times> log_msg list" where
  "parse_tide_feed london_tz entries =
     (if entries = [] then (Inr [], [FetchingFeed, EmptyFeedWarning])
      else
        (case for_each (feed_entry london_tz) entries of
           (Inl e, lg) \<Rightarrow> (Inl e, FetchingFeed # lg)
         | (Inr records, lg) \<Rightarrow>
             (Inr (sort_key tide_time (unique_records records)), FetchingFeed # lg)))"

text \<open>
  The storage collaborator is a parameter: \<open>upsert records db\<close> tells whether the call
  succeeded and gives the table afterwards. \<open>supabase\<close> pairs the table with the calls
  made so far, so that a call is visible in the state.
\<close>

type_synonym 'db upsert = "tide_record list \<Rightarrow> 'db \<Rightarrow> bool \<times> 'db"

record 'db supabase =
  table :: 'db
  upsert_calls :: "tide_record list list"

definition call_upsert ::
  "'db upsert \<Rightarrow> tide_record list \<Rightarrow> 'db supabase \<Rightarrow> bool \<times> 'db supabase" where
  "call_upsert upsert records st =
     (case upsert records (table st) of
        (ok, db) \<Rightarrow> (ok, \<lparr>table = db, upsert_calls = upsert_calls st @ [records]\<rparr>))"

definition update_supabase_tides ::
  "'db upsert \<Rightarrow> tide_record list \<Rightarrow> 'db supabase \<Rightarrow> 'db supabase \<times> log_msg list" where
  "update_supabase_tides upsert records st =
     (if records = [] then (st, [NoRecordsToInsert])
      else
        (case call_upsert upsert records st of
           (ok, st') \<Rightarrow>
             (st', [PreparedRecords (length records),
                    if ok then UpsertSucceeded else UpsertFailed])))"

section \<open>The day-page pipeline: \<^verbatim>\<open>tide_scraper_week.py\<close>\<close>

text \<open>
  \<^verbatim>\<open>strftime\<close> of a date, as CPython prints it on Linux (the year is not padded), and
  \<^verbatim>\<open>datetime.strptime(s, '%Y-%m-%d %H:%M')\<close>. The format compiles to the pattern
  \<^verbatim>\<open>(\d\d\d\d)-(1[0-2]|0[1-9]|[1-9])-(3[0-1]|[1-2]\d|0[1-9]|[1-9]| [1-9])\s+\<close>
  \<^verbatim>\<open>(2[0-3]|[0-1]\d|\d):([0-5]\d|\d)\<close>, matched at the start of the string; text left
  over after the match, or a date that does not exist, raises \<^verbatim>\<open>ValueError\<close>. In each
  group the alternatives of two characters come first, and where one of them fits and
  the rest of the pattern fails, the alternative of one character leaves a digit in
  front of \<^verbatim>\<open>-\<close>, white space or \<^verbatim>\<open>:\<close> and fails too; so \<open>two_or_one\<close> takes the first
  alternative that fits.
\<close>

definition strftime_Ymd :: "py_date \<Rightarrow> string" where
  "strftime_Ymd t = show_nat (nat (d_year t)) @ pad 2 (d_month t) @ pad 2 (d_day t)"

definition strftime_Y_m_d :: "py_date \<Rightarrow> string" where
  "strftime_Y_m_d t =
     show_nat (nat (d_year t)) @ ''-'' @ pad 2 (d_month t) @ ''-'' @ pad 2 (d_day t)"

definition year4 :: "string \<Rightarrow> (int \<times> string) option" where
  "year4 s =
     (case s of
        a # b # c # d # r \<Rightarrow>
          if is_digit a \<and> is_digit b \<and> is_digit c \<and> is_digit d
          then Some (int (digits_val 0 [a, b, c, d]), r) else None
      | _ \<Rightarrow> None)"

definition two_or_one ::
  "(char \<Rightarrow> char \<Rightarrow> bool) \<Rightarrow> (char \<Rightarrow> bool) \<Rightarrow> string \<Rightarrow> (int \<times> string) option" where
  "two_or_one two one s =
     (case s of
        [] \<Rightarrow> None
      | [a] \<Rightarrow> if one a then Some (int (digit_val a), []) else None
      | a # b # r \<Rightarrow>
          if two a b then Some (int (digits_val 0 (filter is_digit [a, b])), r)
          else if one a then Some (int (digit_val a), b # r)
          else None)"

definition month_two :: "char \<Rightarrow> char \<Rightarrow> bool" where
  "month_two a b =
     ((a = CHR ''1'' \<and> b \<in> set ''012'') \<or> (a = CHR ''0'' \<and> b \<in> set ''123456789''))"

definition day_two :: "char \<Rightarrow> char \<Rightarrow> bool" where
  "day_two a b =
     ((a = CHR ''3'' \<and> b \<in> set ''01'') \<or> (a \<in> set ''12'' \<and> is_digit b)
      \<or> (a = CHR ''0'' \<and> b \<in> set ''123456789'')
      \<or> (a = CHR '' '' \<and> b \<in> set ''123456789''))"

definition hour_two :: "char \<Rightarrow> char \<Rightarrow> bool" where
  "hour_two a b =
     ((a = CHR ''2'' \<and> b \<in> set ''0123'') \<or> (a \<in> set ''01'' \<and> is_digit b))"

definition minute_two :: "char \<Rightarrow> char \<Rightarrow> bool" where
  "minute_two a b = (a \<in> set ''012345'' \<and> is_digit b)"

definition nonzero_digit :: "char \<Rightarrow> bool" where
  "nonzero_digit c = (c \<in> set ''123456789'')"

definition strptime_match :: "string \<Rightarrow> ((int \<times> int \<times> int \<times> int \<times> int) \<times> string) option" where
  "strptime_match s =
     do {
       (y, r1) \<leftarrow> year4 s;
       r2 \<leftarrow> lit ''-'' r1;
       (m, r3) \<leftarrow> two_or_one month_two nonzero_digit r2;
       r4 \<leftarrow> lit ''-'' r3;
       (d, r5) \<leftarrow> two_or_one day_two nonzero_digit r4;
       r6 \<leftarrow> ws1 r5;
       (h, r7) \<leftarrow> two_or_one hour_two is_digit r6;
       r8 \<leftarrow> lit '':'' r7;
       (mi, r9) \<leftarrow> two_or_one minute_two is_digit r8;
       Some ((y, m, d, h, mi), r9)
     }"

definition strptime :: "string \<Rightarrow> py_error + py_datetime" where
  "strptime s =
     (case strptime_match s of
        None \<Rightarrow> Inl ValueError
      | Some ((y, m, d, h, mi), rest) \<Rightarrow>
          if rest \<noteq> [] then Inl ValueError
          else bind_err (datetime_new y m d) (\<lambda>dt. replace_time dt h mi))"

text \<open>
  What the page parser hands over. A row is a \<^verbatim>\<open>tr\<close>: its classes and, for each of the
  cells \<^verbatim>\<open>td.tal\<close>, \<^verbatim>\<open>td.tac\<close> and \<^verbatim>\<open>td.tar\<close>, the text of the first such cell if there
  is one; for the time cell, the text of its first \<^verbatim>\<open>span\<close> if it has one. A page is
  what \<^verbatim>\<open>requests.get\<close> and the two \<^verbatim>\<open>find\<close> calls give: a failed request, no
  \<^verbatim>\<open>div#tides\<close>, such a \<^verbatim>\<open>div\<close> without a table, or the rows of its first table.
\<close>

record row =
  row_class :: "string list"
  tide_type_cell :: "string option"
  tide_time_cell :: "string option option"
  tide_height_cell :: "string option"

datatype page = RequestFailed | NoTidesDiv | NoTable | TidesTable "row list"

text \<open>
  The body of the \<^verbatim>\<open>try\<close> block of a row. \<open>var\<close> is the local variable
  \<^verbatim>\<open>full_datetime_str\<close>: \<open>None\<close> while nothing has been assigned to it in this call. The
  height is converted before the assignment, so a height that fails leaves the
  variable as it was.
\<close>

definition week_try ::
  "py_date \<Rightarrow> tzinfo \<Rightarrow> string \<Rightarrow> string \<Rightarrow> string \<Rightarrow> string option
    \<Rightarrow> (py_error + tide_record) \<times> string option" where
  "week_try date_obj london_tz type_text tide_time_raw height_text var =
     (case bind_err (py_float (remove_m (strip height_text))) py_round2 of
        Inl e \<Rightarrow> (Inl e, var)
      | Inr rounded \<Rightarrow>
          (let full_datetime_str = strftime_Y_m_d date_obj @ '' '' @ tide_time_raw
           in (bind_err (strptime full_datetime_str) (\<lambda>naive_dt.
               bind_err (isoformat london_tz naive_dt) (\<lambda>tide_iso_time.
               Inr \<lparr>tide_time = tide_iso_time, tide_type = type_text,
                    height_m = rounded\<rparr>)),
               Some full_datetime_str)))"

text \<open>
  One pass of the loop over the rows. The handler \<^verbatim>\<open>except ValueError\<close> prints
  \<^verbatim>\<open>full_datetime_str\<close>: reading the variable while it is unassigned raises
  \<^verbatim>\<open>UnboundLocalError\<close>, which nothing catches.
\<close>

definition scrape_row ::
  "py_date \<Rightarrow> tzinfo \<Rightarrow> string option \<Rightarrow> row
    \<Rightarrow> (py_error + tide_record list) \<times> log_msg list \<times> string option" where
  "scrape_row date_obj london_tz var r =
     (case (tide_type_cell r, tide_time_cell r, tide_height_cell r) of
        (Some type_text, Some span_time, Some height_text) \<Rightarrow>
          (case span_time of
             None \<Rightarrow> (Inr [], [], var)
           | Some span_text \<Rightarrow>
               (case week_try date_obj london_tz (strip type_text) (strip span_text)
                       height_text var of
                  (Inr rec, var') \<Rightarrow> (Inr [rec], [], var')
                | (Inl e, var') \<Rightarrow>
                    if e = ValueError then
                      (case var' of
                         None \<Rightarrow> (Inl UnboundLocalError, [], var')
                       | Some s \<Rightarrow> (Inr [], [SkippingRecord s ValueError], var'))
                    else (Inl e, [], var')))
      | _ \<Rightarrow> (Inr [], [], var))"

fun scrape_rows ::
  "py_date \<Rightarrow> tzinfo \<Rightarrow> string option \<Rightarrow> row list
    \<Rightarrow> (py_error + tide_record list) \<times> log_msg list" where
  "scrape_rows date_obj london_tz var [] = (Inr [], [])"
| "scrape_rows date_obj london_tz var (r # rs) =
     (case scrape_row date_obj london_tz var r of
        (Inl e, lg, var') \<Rightarrow> (Inl e, lg)
      | (Inr recs, lg, var') \<Rightarrow>
          (case scrape_rows date_obj london_tz var' rs of
             (Inl e, lg') \<Rightarrow> (Inl e, lg @ lg')
           | (Inr recs', lg') \<Rightarrow> (Inr (recs @ recs'), lg @ lg')))"

definition BASE_URL :: string where
  "BASE_URL = ''https://www.tidetimes.org.uk/burry-port-tide-times-''"

definition DAYS_TO_FORECAST :: nat where
  "DAYS_TO_FORECAST = 7"

definition scrape_single_day ::
  "(string \<Rightarrow> page) \<Rightarrow> py_date \<Rightarrow> tzinfo \<Rightarrow> (py_error + tide_record list) \<times> log_msg list" where
  "scrape_single_day fetch date_obj london_tz =
     (let date_str = strftime_Ymd date_obj; url = BASE_URL @ date_str
      in case fetch url of
           RequestFailed \<Rightarrow> (Inr [], [FetchingDay date_str, FetchError url])
         | NoTidesDiv \<Rightarrow> (Inr [], [FetchingDay date_str, NoTideContainer date_str])
         | NoTable \<Rightarrow> (Inl AttributeError, [FetchingDay date_str])
         | TidesTable rows \<Rightarrow>
             (let tide_rows = filter (\<lambda>tr. ''colhead'' \<notin> set (row_class tr)) rows
              in case scrape_rows date_obj london_tz None tide_rows of
                   (res, lg) \<Rightarrow> (res, FetchingDay date_str # lg)))"

text \<open>
  \<^verbatim>\<open>today + timedelta(days=i)\<close>, day by day; past 9999-12-31 the addition raises
  \<^verbatim>\<open>OverflowError\<close>.
\<close>

definition next_day :: "py_date \<Rightarrow> py_error + py_date" where
  "next_day t =
     (if d_day t < days_in_month (d_year t) (d_month t) then Inr (t\<lparr>d_day := d_day t + 1\<rparr>)
      else if d_month t < 12 then Inr (t\<lparr>d_month := d_month t + 1, d_day := 1\<rparr>)
      else if d_year t < 9999 then Inr \<lparr>d_year = d_year t + 1, d_month = 1, d_day = 1\<rparr>
      else Inl OverflowError)"

fun add_days :: "py_date \<Rightarrow> nat \<Rightarrow> py_error + py_date" where
  "add_days t 0 = Inr t"
| "add_days t (Suc n) = bind_err (next_day t) (\<lambda>t'. add_days t' n)"

definition collect_week ::
  "(string \<Rightarrow> page) \<Rightarrow> tzinfo \<Rightarrow> py_date \<Rightarrow> (py_error + tide_record list) \<times> log_msg list" where
  "collect_week fetch london_tz today =
     for_each
       (\<lambda>i. case add_days today i of
              Inl e \<Rightarrow> (Inl e, [])
            | Inr target_date \<Rightarrow> scrape_single_day fetch target_date london_tz)
       [0..<DAYS_TO_FORECAST]"

definition run_weekly_scraper ::
  "'db upsert \<Rightarrow> (string \<Rightarrow> page) \<Rightarrow> tzinfo \<Rightarrow> py_date \<Rightarrow> 'db supabase
    \<Rightarrow> (py_error + unit) \<times> 'db supabase \<times> log_msg list" where
  "run_weekly_scraper upsert fetch london_tz today st =
     (case collect_week fetch london_tz today of
        (Inl e, lg) \<Rightarrow> (Inl e, st, lg)
      | (Inr all_records, lg) \<Rightarrow>
          if all_records = [] then (Inr (), st, lg @ [NoRecordsCollected])
          else
            (case call_upsert upsert all_records st of
               (ok, st') \<Rightarrow>
                 (Inr (), st',
                  lg @ [CollectedRecords (length all_records),
                        if ok then UpsertSucceeded else UpsertFailed])))"

section \<open>The tide-line pattern as the specification words it\<close>

text \<open>
  A line matches when it contains, one after the other: a 24-hour \<^verbatim>\<open>HH:MM\<close> time, a
  separator (white space, a hyphen, white space), the type token \<^verbatim>\<open>High\<close> or \<^verbatim>\<open>Low\<close>,
  the word \<^verbatim>\<open>Tide\<close>, and a height in metres between parentheses, each parenthesis
  written literally or as its numeric character reference.
\<close>

definition spaces1 :: "string \<Rightarrow> bool" where
  "spaces1 w = (w \<noteq> [] \<and> list_all is_space w)"

text \<open>
  \<open>spec_tide_match core t ty hs\<close>: the text \<open>core\<close> is one occurrence of the pattern, with
  the time \<open>t\<close>, the type token \<open>ty\<close> and the height with its unit \<open>hs\<close>.
\<close>

definition spec_tide_match :: "string \<Rightarrow> string \<Rightarrow> string \<Rightarrow> string \<Rightarrow> bool" where
  "spec_tide_match core t ty hs =
     (\<exists>a b c d w1 w2 w3 w4 op h cl.
        core = t @ w1 @ ''-'' @ w2 @ ty @ w3 @ ''Tide'' @ w4 @ op @ hs @ cl
        \<and> t = [a, b, CHR '':'', c, d]
        \<and> is_digit a \<and> is_digit b \<and> is_digit c \<and> is_digit d
        \<and> spaces1 w1 \<and> spaces1 w2 \<and> spaces1 w3 \<and> spaces1 w4
        \<and> (ty = ''High'' \<or> ty = ''Low'')
        \<and> (op = ''&#x28;'' \<or> op = ''('')
        \<and> hs = h @ ''m'' \<and> h \<noteq> [] \<and> list_all is_height_char h
        \<and> (cl = ''&#x29;'' \<or> cl = '')''))"

definition spec_tide_line :: "string \<Rightarrow> bool" where
  "spec_tide_line line =
     (\<exists>pre core post t ty hs. line = pre @ core @ post \<and> spec_tide_match core t ty hs)"

section \<open>Deduplication\<close>

lemma dict_set_keys:
  "map fst (dict_set d k v) = (if k \<in> fst ` set d then map fst d else map fst d @ [k])"
  by (induction d) force+

lemma dict_set_key_set: "fst ` set (dict_set d k v) = insert k (fst ` set d)"
  using arg_cong[OF dict_set_keys[of d k v], of set] by (auto split: if_splits)

lemma dict_set_distinct: "distinct (map fst d) \<Longrightarrow> distinct (map fst (dict_set d k v))"
  by (simp add: dict_set_keys)

lemma map_of_dict_set: "map_of (dict_set d k v) = (map_of d)(k \<mapsto> v)"
  by (induction d) (auto simp: fun_eq_iff)

lemma dict_fold_distinct:
  "distinct (map fst d) \<Longrightarrow> distinct (map fst (foldl (\<lambda>d r. dict_set d (f r) r) d rs))"
  by (induction rs arbitrary: d) (simp_all add: dict_set_distinct)

lemma dict_fold_keys:
  "fst ` set (foldl (\<lambda>d r. dict_set d (f r) r) d rs) = fst ` set d \<union> f ` set rs"
  by (induction rs arbitrary: d) (simp_all add: dict_set_key_set)

lemma dict_fold_map_of:
  "map_of (foldl (\<lambda>d r. dict_set d (f r) r) d rs) k =
     (if filter (\<lambda>x. f x = k) rs = [] then map_of d k
      else Some (last (filter (\<lambda>x. f x = k) rs)))"
  by (induction rs arbitrary: d) (auto simp: map_of_dict_set)

lemma dict_fold_entry:
  assumes "(k, v) \<in> set (foldl (\<lambda>d r. dict_set d (f r) r) [] rs)"
  shows "v = last (filter (\<lambda>x. f x = k) rs)" and "f v = k"
proof -
  let ?d = "foldl (\<lambda>d r. dict_set d (f r) r) [] rs"
  have "distinct (map fst ?d)" by (rule dict_fold_distinct) simp
  with assms have "map_of ?d k = Some v" by simp
  then have ne: "filter (\<lambda>x. f x = k) rs \<noteq> []" and v: "v = last (filter (\<lambda>x. f x = k) rs)"
    by (auto simp: dict_fold_map_of split: if_splits)
  from ne have "last (filter (\<lambda>x. f x = k) rs) \<in> set (filter (\<lambda>x. f x = k) rs)"
    by (rule last_in_set)
  with v show "f v = k" by simp
  from v show "v = last (filter (\<lambda>x. f x = k) rs)" .
qed

lemma unique_records_keys:
  "map tide_time (unique_records rs) = map fst (foldl (\<lambda>d r. dict_set d (tide_time r) r) [] rs)"
  unfolding unique_records_def map_map
  by (rule map_cong[OF refl]) (auto dest: dict_fold_entry(2))

text \<open>
  Claim C4. For every batch of candidate records, the deduplication of
  \<^verbatim>\<open>parse_tide_feed\<close> keeps exactly one record for each \<^verbatim>\<open>tide_time\<close> of the batch (the
  times of the result are distinct and are the times of the batch), and each record it
  keeps is the last record of the batch that bears its \<^verbatim>\<open>tide_time\<close>. The witness is a
  batch of two records with the same time and different heights: the second survives.
\<close>

theorem unique_records_last_wins:
  "distinct (map tide_time (unique_records rs))
   \<and> set (map tide_time (unique_records rs)) = set (map tide_time rs)
   \<and> (\<forall>r \<in> set (unique_records rs). r = last (filter (\<lambda>x. tide_time x = tide_time r) rs))"
proof (intro conjI ballI)
  show "distinct (map tide_time (unique_records rs))"
    unfolding unique_records_keys by (rule dict_fold_distinct) simp
  show "set (map tide_time (unique_records rs)) = set (map tide_time rs)"
    unfolding unique_records_keys by (simp add: dict_fold_keys[of tide_time "[]" rs, simplified])
next
  fix r assume "r \<in> set (unique_records rs)"
  then obtain k where "(k, r) \<in> set (foldl (\<lambda>d r. dict_set d (tide_time r) r) [] rs)"
    by (auto simp: unique_records_def)
  then have "r = last (filter (\<lambda>x. tide_time x = k) rs)" and "tide_time r = k"
    by (rule dict_fold_entry)+
  then show "r = last (filter (\<lambda>x. tide_time x = tide_time r) rs)" by (simp only:)
qed

theorem unique_records_last_wins_witness:
  "unique_records
     [\<lparr>tide_time = ''2024-06-01T06:15:00+01:00'', tide_type = ''High'', height_m = Finite 7\<rparr>,
      \<lparr>tide_time = ''2024-06-01T06:15:00+01:00'', tide_type = ''High'', height_m = Finite 8\<rparr>]
   = [\<lparr>tide_time = ''2024-06-01T06:15:00+01:00'', tide_type = ''High'', height_m = Finite 8\<rparr>]
   \<and> distinct (map tide_time (unique_records
     [\<lparr>tide_time = ''2024-06-01T06:15:00+01:00'', tide_type = ''High'', height_m = Finite 7\<rparr>,
      \<lparr>tide_time = ''2024-06-01T06:15:00+01:00'', tide_type = ''High'', height_m = Finite 8\<rparr>]))"
  using unique_records_last_wins [of
     "[\<lparr>tide_time = ''2024-06-01T06:15:00+01:00'', tide_type = ''High'', height_m = Finite 7\<rparr>,
      \<lparr>tide_time = ''2024-06-01T06:15:00+01:00'', tide_type = ''High'', height_m = Finite 8\<rparr>]"]
  by (simp add: unique_records_def)

section \<open>An empty batch\<close>

lemma add_days_numeral:
  "add_days t (numeral k) = bind_err (next_day t) (\<lambda>t'. add_days t' (pred_numeral k))"
  by (simp add: numeral_eq_Suc)

lemma add_days_1: "add_days t 1 = bind_err (next_day t) (\<lambda>t'. add_days t' 0)"
  using add_days.simps(2)[of t 0] by simp

lemma upt_0_7: "[0..<7] = [0, 1, 2, 3, 4, 5, 6 :: nat]"
  by (simp add: upt_conv_Cons)

lemma collect_week_no_div:
  "collect_week (\<lambda>u. NoTidesDiv) tz \<lparr>d_year = 2024, d_month = 6, d_day = 1\<rparr> =
    (Inr [],
     [FetchingDay ''20240601'', NoTideContainer ''20240601'',
      FetchingDay ''20240602'', NoTideContainer ''20240602'',
      FetchingDay ''20240603'', NoTideContainer ''20240603'',
      FetchingDay ''20240604'', NoTideContainer ''20240604'',
      FetchingDay ''20240605'', NoTideContainer ''20240605'',
      FetchingDay ''20240606'', NoTideContainer ''20240606'',
      FetchingDay ''20240607'', NoTideContainer ''20240607''])"
  by (simp add: collect_week_def DAYS_TO_FORECAST_def upt_0_7 add_days_numeral add_days_1
      next_day_def days_in_month_def scrape_single_day_def Let_def strftime_Ymd_def pad_def
      digit_char_def)

text \<open>
  Claim C10. When the batch is empty, neither pipeline calls the storage collaborator:
  \<^verbatim>\<open>update_supabase_tides\<close> on an empty list, and \<^verbatim>\<open>run_weekly_scraper\<close> when the seven
  days gave no record, return with the state they were given (the table and the list
  of calls made are unchanged) after printing one message, whatever the collaborator
  would do. The witness is a week in which no page has the tide container.
\<close>

theorem empty_batch_no_upsert:
  assumes "collect_week fetch london_tz today = (Inr [], lg)"
  shows "update_supabase_tides upsert [] st = (st, [NoRecordsToInsert])
     \<and> run_weekly_scraper upsert fetch london_tz today st = (Inr (), st, lg @ [NoRecordsCollected])"
  using assms by (simp add: update_supabase_tides_def run_weekly_scraper_def)

theorem empty_batch_no_upsert_witness:
  "update_supabase_tides (\<lambda>rs db. (True, db @ rs)) [] \<lparr>table = [], upsert_calls = []\<rparr>
     = (\<lparr>table = [], upsert_calls = []\<rparr>, [NoRecordsToInsert])
   \<and> run_weekly_scraper (\<lambda>rs db. (True, db @ rs)) (\<lambda>u. NoTidesDiv) europe_london
        \<lparr>d_year = 2024, d_month = 6, d_day = 1\<rparr> \<lparr>table = [], upsert_calls = []\<rparr>
     = (Inr (), \<lparr>table = [], upsert_calls = []\<rparr>,
        [FetchingDay ''20240601'', NoTideContainer ''20240601'',
         FetchingDay ''20240602'', NoTideContainer ''20240602'',
         FetchingDay ''20240603'', NoTideContainer ''20240603'',
         FetchingDay ''20240604'', NoTideContainer ''20240604'',
         FetchingDay ''20240605'', NoTideContainer ''20240605'',
         FetchingDay ''20240606'', NoTideContainer ''20240606'',
         FetchingDay ''20240607'', NoTideContainer ''20240607'',
         NoRecordsCollected])"
  using empty_batch_no_upsert [OF collect_week_no_div [of europe_london],
      where upsert = "\<lambda>rs db. (True, db @ rs)"
        and st = "\<lparr>table = [], upsert_calls = []\<rparr>"]
  by simp

section \<open>The spring-forward boundary of 2024\<close>












section \<open>Rounding to a double: bounds\<close>

lemma bitlen_ge1: "0 < x \<Longrightarrow> 1 \<le> bitlen x"
  using bitlen_bounds[of x] bitlen_nonneg[of x]
  by (smt (verit) nat_0_iff power_0 nat_le_0 zero_less_one)

lemma bitlen_powi_bounds:
  assumes "0 < x"
  shows "(2::rat) powi (bitlen x - 1) \<le> of_int x" and "of_int x < (2::rat) powi (bitlen x)"
proof -
  have b: "1 \<le> bitlen x" using assms by (rule bitlen_ge1)
  have "2 ^ nat (bitlen x - 1) \<le> x" "x < 2 ^ nat (bitlen x)" using bitlen_bounds[OF assms] by auto
  then have "(of_int (2 ^ nat (bitlen x - 1)) :: rat) \<le> of_int x" "(of_int x :: rat) < of_int (2 ^ nat (bitlen x))"
    by (simp_all only: of_int_le_iff of_int_less_iff)
  then show "(2::rat) powi (bitlen x - 1) \<le> of_int x" and "of_int x < (2::rat) powi (bitlen x)"
    using b by (simp_all add: power_int_def)
qed

lemma powi2_add: "(2::rat) powi (i + j) = 2 powi i * 2 powi j"
  by (simp add: power_int_add)

lemma powi2_diff: "(2::rat) powi (i - j) = 2 powi i / 2 powi j"
  by (simp add: power_int_diff)

lemma ilog2_bounds:
  assumes "0 < a"
  shows "2 powi (ilog2 a) \<le> a" and "a < 2 powi (ilog2 a + 1)"
proof -
  obtain p q where pq: "quotient_of a = (p, q)" by (cases "quotient_of a")
  have q: "0 < q" using quotient_of_denom_pos[OF pq] .
  have a: "a = of_int p / of_int q" using quotient_of_div[OF pq] .
  have p: "0 < p" using assms a q by (simp add: zero_less_divide_iff)
  define d where "d = bitlen p - bitlen q"
  have pw: "\<And>i. (0::rat) < 2 powi i" by simp
  have up: "a < 2 powi (d + 1)"
  proof -
    have "of_int p < (2::rat) powi bitlen p" using bitlen_powi_bounds(2)[OF p] .
    moreover have "(2::rat) powi (bitlen q - 1) \<le> of_int q" using bitlen_powi_bounds(1)[OF q] .
    ultimately have "of_int p / of_int q < (2::rat) powi bitlen p / 2 powi (bitlen q - 1)"
      using p q pw by (intro frac_less) simp_all
    also have "\<dots> = 2 powi (d + 1)" by (simp add: d_def powi2_add powi2_diff)
    finally show ?thesis using a by simp
  qed
  have lo: "2 powi (d - 1) \<le> a"
  proof -
    have "(2::rat) powi (bitlen p - 1) \<le> of_int p" using bitlen_powi_bounds(1)[OF p] .
    moreover have "of_int q < (2::rat) powi bitlen q" using bitlen_powi_bounds(2)[OF q] .
    ultimately have "(2::rat) powi (bitlen p - 1) / 2 powi bitlen q \<le> of_int p / of_int q"
      using p q pw by (intro frac_le) simp_all
    moreover have "(2::rat) powi (bitlen p - 1) / 2 powi bitlen q = 2 powi (d - 1)"
      by (simp add: d_def powi2_add powi2_diff)
    ultimately show ?thesis using a by simp
  qed
  have il: "ilog2 a = (if 2 powi d \<le> a then d else d - 1)"
    by (simp add: ilog2_def pq d_def Let_def)
  show "2 powi (ilog2 a) \<le> a" using il lo by (simp split: if_splits)
  show "a < 2 powi (ilog2 a + 1)" using il up by (simp split: if_splits)
qed

lemma powi2_mono: "i \<le> j \<Longrightarrow> (2::rat) powi i \<le> 2 powi j"
  by (rule power_int_increasing) simp_all

lemma powi2_less_iff: "(2::rat) powi i < 2 powi j \<longleftrightarrow> i < j"
proof
  assume l: "(2::rat) powi i < 2 powi j"
  show "i < j"
  proof (rule ccontr)
    assume "\<not> i < j"
    then have "(2::rat) powi j \<le> 2 powi i" by (intro powi2_mono) simp
    with l show False by simp
  qed
next
  assume "i < j"
  then show "(2::rat) powi i < 2 powi j" by (intro power_int_strict_increasing) simp_all
qed

lemma ilog2_unique:
  assumes "2 powi e \<le> a" and "a < 2 powi (e + 1)"
  shows "ilog2 a = e"
proof -
  have pos: "0 < a" using assms(1) by (rule less_le_trans[rotated]) simp
  have 1: "(2::rat) powi e < 2 powi (ilog2 a + 1)"
    using assms(1) ilog2_bounds(2)[OF pos] by (rule le_less_trans)
  have 2: "(2::rat) powi (ilog2 a) < 2 powi (e + 1)"
    using ilog2_bounds(1)[OF pos] assms(2) by (rule le_less_trans)
  from 1 2 show ?thesis by (simp add: powi2_less_iff)
qed

lemma round_half_even_frac:
  assumes "0 < d"
  shows "round_half_even (of_int n / of_int d) =
     (let q = n div d; r = n mod d
      in if 2 * r < d then q else if d < 2 * r then q + 1 else if even q then q else q + 1)"
proof -
  have fl: "\<lfloor>(of_int n / of_int d :: rat)\<rfloor> = n div d" by (rule floor_divide_of_int_eq)
  have "of_int n = of_int (n div d) * (of_int d :: rat) + of_int (n mod d)"
    by (metis div_mult_mod_eq of_int_add of_int_mult)
  then have fr: "(of_int n / of_int d :: rat) - of_int (n div d) = of_int (n mod d) / of_int d"
    using assms by (simp add: field_simps)
  have c1: "(of_int (n mod d) / of_int d :: rat) < 1 / 2 \<longleftrightarrow> 2 * (n mod d) < d"
    using assms apply (simp add: field_simps) 
    by (metis (mono_tags, opaque_lifting) of_int_less_iff of_int_mult of_int_numeral mult.commute)
  have c2: "1 / 2 < (of_int (n mod d) / of_int d :: rat) \<longleftrightarrow> d < 2 * (n mod d)"
    using assms apply (simp add: field_simps)
    by (metis (mono_tags, opaque_lifting) of_int_less_iff of_int_mult of_int_numeral mult.commute)
  show ?thesis
    unfolding round_half_even_def fl Let_def fr c1 c2 by simp
qed

lemma round_half_even_of_int [simp]: "round_half_even (of_int n) = n"
  by (simp add: round_half_even_def)

lemma round_half_even_numeral [simp]: "round_half_even (numeral n) = numeral n"
  using round_half_even_of_int[of "numeral n"] by simp


lemma round_half_even_near: "\<bar>of_int (round_half_even x) - x\<bar> \<le> 1 / 2"
proof -
  have "of_int \<lfloor>x\<rfloor> \<le> x" "x < of_int \<lfloor>x\<rfloor> + 1" by linarith+
  then show ?thesis by (auto simp: round_half_even_def Let_def)
qed

lemma round_half_even_nonneg: "0 \<le> x \<Longrightarrow> 0 \<le> round_half_even x"
  by (auto simp: round_half_even_def Let_def)

lemma int_le_of_rat_less_half:
  assumes "of_int m < of_int k + (1 / 2 :: rat)"
  shows "m \<le> k"
proof (rule ccontr)
  assume "\<not> m \<le> k"
  then have "k + 1 \<le> m" by simp
  then have "(of_int (k + 1) :: rat) \<le> of_int m" by (simp only: of_int_le_iff)
  with assms show False by simp
qed

lemma int_ge_of_rat_greater_half:
  assumes "of_int k - (1 / 2 :: rat) \<le> of_int m"
  shows "k \<le> m"
proof (rule ccontr)
  assume "\<not> k \<le> m"
  then have "m + 1 \<le> k" by simp
  then have "(of_int (m + 1) :: rat) \<le> of_int k" by (simp only: of_int_le_iff)
  with assms show False by simp
qed

lemma round_half_even_less:
  assumes "x < of_int k"
  shows "round_half_even x \<le> k"
proof -
  have "of_int (round_half_even x) \<le> x + 1 / 2" using round_half_even_near[of x] by linarith
  with assms have "of_int (round_half_even x) < of_int k + (1 / 2 :: rat)" by linarith
  then show ?thesis by (rule int_le_of_rat_less_half)
qed

lemma round_half_even_ge:
  assumes "of_int k \<le> x"
  shows "k \<le> round_half_even x"
proof -
  have "x - 1 / 2 \<le> of_int (round_half_even x)" using round_half_even_near[of x] by linarith
  with assms have "of_int k - (1 / 2 :: rat) \<le> of_int (round_half_even x)" by linarith
  then show ?thesis by (rule int_ge_of_rat_greater_half)
qed

lemma to_double_shape:
  assumes "q \<noteq> 0"
  shows "to_double q =
     (if (2::rat) ^ 1024 \<le> of_int (dbl_mant q) * 2 powi (dbl_exp q - 52)
      then (if q < 0 then NInf else PInf)
      else Finite (if q < 0 then - (of_int (dbl_mant q) * 2 powi (dbl_exp q - 52))
                   else of_int (dbl_mant q) * 2 powi (dbl_exp q - 52)))"
  using assms unfolding to_double_def Let_def by (simp only: if_False)

lemma dbl_mant_le:
  assumes "q \<noteq> 0"
  shows "dbl_mant q \<le> 2 ^ 53"
proof -
  have pos: "0 < \<bar>q\<bar>" using assms by simp
  define e where "e = dbl_exp q"
  have "ilog2 \<bar>q\<bar> + 1 \<le> e + 1" by (simp add: e_def dbl_exp_def)
  then have "\<bar>q\<bar> < 2 powi (e + 1)"
    using ilog2_bounds(2)[OF pos] powi2_mono[of "ilog2 \<bar>q\<bar> + 1" "e + 1"] by linarith
  then have "\<bar>q\<bar> / 2 powi (e - 52) < 2 powi (e + 1) / 2 powi (e - 52)"
    by (simp add: divide_strict_right_mono)
  also have "\<dots> = 2 powi 53" by (simp flip: powi2_diff)
  finally have "\<bar>q\<bar> / 2 powi (e - 52) < of_int (2 ^ 53)" by simp
  then show ?thesis unfolding dbl_mant_def e_def[symmetric] by (rule round_half_even_less)
qed

lemma dbl_mant_nonneg: "0 \<le> dbl_mant q"
  unfolding dbl_mant_def by (rule round_half_even_nonneg) simp


lemma powi2_mult_eq: "i + j = k \<Longrightarrow> (2::rat) powi i * 2 powi j = 2 powi k"
  by (simp flip: powi2_add)

lemma powi2_div_eq: "i - j = k \<Longrightarrow> (2::rat) powi i / 2 powi j = 2 powi k"
  by (simp flip: powi2_diff)

lemma dbl_exp_ge: "- 1022 \<le> dbl_exp q"
  by (simp add: dbl_exp_def)

lemma dbl_val_nonneg: "0 \<le> of_int (dbl_mant q) * (2::rat) powi (dbl_exp q - 52)"
  using dbl_mant_nonneg[of q] by simp

lemma dbl_val_le:
  assumes "q \<noteq> 0"
  shows "of_int (dbl_mant q) * (2::rat) powi (dbl_exp q - 52) \<le> 2 powi (dbl_exp q + 1)"
proof -
  have "(of_int (dbl_mant q) :: rat) \<le> of_int (2 ^ 53)"
    using dbl_mant_le[OF assms] by (simp only: of_int_le_iff)
  then have "(of_int (dbl_mant q) :: rat) \<le> 2 powi 53" by simp
  then have "of_int (dbl_mant q) * (2::rat) powi (dbl_exp q - 52) \<le> 2 powi 53 * 2 powi (dbl_exp q - 52)"
    by (intro mult_right_mono) simp_all
  also have "\<dots> = 2 powi (dbl_exp q + 1)" by (rule powi2_mult_eq) simp
  finally show ?thesis .
qed

lemma dbl_val_ge:
  assumes "q \<noteq> 0" and "- 1022 \<le> ilog2 \<bar>q\<bar>"
  shows "(2::rat) powi (dbl_exp q) \<le> of_int (dbl_mant q) * 2 powi (dbl_exp q - 52)"
proof -
  have pos: "0 < \<bar>q\<bar>" using assms by simp
  have e: "dbl_exp q = ilog2 \<bar>q\<bar>" using assms(2) by (simp add: dbl_exp_def)
  have "(2::rat) powi (dbl_exp q) \<le> \<bar>q\<bar>" unfolding e using ilog2_bounds(1)[OF pos] .
  then have "(2::rat) powi (dbl_exp q) / 2 powi (dbl_exp q - 52) \<le> \<bar>q\<bar> / 2 powi (dbl_exp q - 52)"
    by (simp add: divide_right_mono)
  moreover have "(2::rat) powi (dbl_exp q) / 2 powi (dbl_exp q - 52) = 2 powi 52"
    by (rule powi2_div_eq) simp
  ultimately have "of_int (2 ^ 52) \<le> \<bar>q\<bar> / 2 powi (dbl_exp q - 52)" by simp
  then have "2 ^ 52 \<le> dbl_mant q" unfolding dbl_mant_def by (rule round_half_even_ge)
  then have "(of_int (2 ^ 52) :: rat) \<le> of_int (dbl_mant q)" by (simp only: of_int_le_iff)
  then have "(2::rat) powi 52 \<le> of_int (dbl_mant q)" by simp
  then have "(2::rat) powi 52 * 2 powi (dbl_exp q - 52) \<le> of_int (dbl_mant q) * 2 powi (dbl_exp q - 52)"
    by (intro mult_right_mono) simp_all
  moreover have "(2::rat) powi 52 * 2 powi (dbl_exp q - 52) = 2 powi (dbl_exp q)"
    by (rule powi2_mult_eq) simp
  ultimately show ?thesis by (simp only:)
qed

lemma to_double_finite_bound:
  assumes "to_double q = Finite v"
  shows "\<bar>v\<bar> \<le> max_double"
proof (cases "q = 0")
  case True
  with assms show ?thesis by (simp add: to_double_def max_double_def)
next
  case False
  define e where "e = dbl_exp q"
  define m where "m = dbl_mant q"
  define w where "w = of_int m * (2::rat) powi (e - 52)"
  have w0: "0 \<le> w" unfolding w_def m_def e_def by (rule dbl_val_nonneg)
  have lt: "w < 2 powi 1024" and v: "\<bar>v\<bar> = w"
    using assms w0 unfolding to_double_shape[OF False] w_def m_def e_def
    by (auto split: if_splits)
  consider "e \<le> 1022" | "e = 1023" | "1024 \<le> e" by linarith
  then have "w \<le> max_double"
  proof cases
    case 1
    have "w \<le> 2 powi (e + 1)" unfolding w_def m_def e_def by (rule dbl_val_le[OF False])
    also have "\<dots> \<le> 2 powi 1023" using 1 by (intro powi2_mono) simp
    also have "\<dots> \<le> max_double" by (simp add: max_double_def)
    finally show ?thesis .
  next
    case 2
    have "of_int m * (2::rat) powi 971 < 2 powi 53 * 2 powi 971"
      using lt unfolding w_def 2 by simp
    then have "(of_int m :: rat) < of_int (2 ^ 53)" by simp
    then have "m < 2 ^ 53" by (simp only: of_int_less_iff)
    then have "m \<le> 2 ^ 53 - 1" by simp
    then have "(of_int m :: rat) \<le> of_int (2 ^ 53 - 1)" by (simp only: of_int_le_iff)
    then have "of_int m * (2::rat) powi 971 \<le> of_int (2 ^ 53 - 1) * 2 powi 971"
      by (intro mult_right_mono) simp_all
    then show ?thesis unfolding w_def 2 max_double_def by simp
  next
    case 3
    then have "- 1022 \<le> ilog2 \<bar>q\<bar>" unfolding e_def dbl_exp_def by linarith
    from dbl_val_ge[OF False this] have "(2::rat) powi e \<le> w" unfolding w_def m_def e_def .
    moreover have "(2::rat) powi 1024 \<le> 2 powi e" using 3 by (intro powi2_mono)
    ultimately show ?thesis using lt by linarith
  qed
  with v show ?thesis by simp
qed

lemma to_double_finite:
  assumes "\<bar>q\<bar> \<le> max_double + 1 / 200"
  shows "\<exists>v. to_double q = Finite v"
proof (cases "q = 0")
  case True
  then show ?thesis by (simp add: to_double_def)
next
  case False
  define e where "e = dbl_exp q"
  define m where "m = dbl_mant q"
  define w where "w = of_int m * (2::rat) powi (e - 52)"
  have pos: "0 < \<bar>q\<bar>" using False by simp
  have qlt: "\<bar>q\<bar> < 2 powi 1024" using assms by (simp add: max_double_def)
  have "(2::rat) powi (ilog2 \<bar>q\<bar>) < 2 powi 1024"
    using ilog2_bounds(1)[OF pos] qlt by (rule le_less_trans)
  then have "ilog2 \<bar>q\<bar> < 1024" by (simp only: powi2_less_iff)
  then have e: "e \<le> 1023" unfolding e_def dbl_exp_def by simp
  consider "e \<le> 1022" | "e = 1023" using e by linarith
  then have "w < 2 powi 1024"
  proof cases
    case 1
    have "w \<le> 2 powi (e + 1)" unfolding w_def m_def e_def by (rule dbl_val_le[OF False])
    also have "\<dots> \<le> 2 powi 1023" using 1 by (intro powi2_mono) simp
    also have "\<dots> < 2 powi 1024" by (simp only: powi2_less_iff)
    finally show ?thesis .
  next
    case 2
    have "\<bar>q\<bar> / 2 powi 971 \<le> (max_double + 1 / 200) / 2 powi 971"
      using assms by (simp add: divide_right_mono)
    also have "\<dots> < of_int (2 ^ 53) - 1 / 2" by (simp add: max_double_def)
    finally have x: "\<bar>q\<bar> / 2 powi (e - 52) < of_int (2 ^ 53) - 1 / 2" unfolding 2 by simp
    have "of_int m \<le> \<bar>q\<bar> / 2 powi (e - 52) + 1 / 2"
      using round_half_even_near[of "\<bar>q\<bar> / 2 powi (e - 52)"]
      unfolding m_def dbl_mant_def e_def by linarith
    with x have "(of_int m :: rat) < of_int (2 ^ 53)" by linarith
    then have "m < 2 ^ 53" by (simp only: of_int_less_iff)
    then have "m \<le> 2 ^ 53 - 1" by simp
    then have "(of_int m :: rat) \<le> of_int (2 ^ 53 - 1)" by (simp only: of_int_le_iff)
    then have "of_int m * (2::rat) powi 971 \<le> of_int (2 ^ 53 - 1) * 2 powi 971"
      by (intro mult_right_mono) simp_all
    then show ?thesis unfolding w_def 2 by simp
  qed
  then show ?thesis unfolding to_double_shape[OF False] w_def m_def e_def by simp
qed

lemma to_double_nonneg:
  assumes "0 \<le> q" and "to_double q = Finite v"
  shows "0 \<le> v"
proof (cases "q = 0")
  case True
  with assms show ?thesis by (simp add: to_double_def)
next
  case False
  with assms dbl_val_nonneg[of q] show ?thesis
    unfolding to_double_shape[OF False] by (auto split: if_splits)
qed

lemma to_double_nonneg_cases:
  assumes "0 \<le> q"
  shows "to_double q = PInf \<or> (\<exists>v. 0 \<le> v \<and> to_double q = Finite v)"
proof (cases "q = 0")
  case True
  then show ?thesis by (simp add: to_double_def)
next
  case False
  with assms dbl_val_nonneg[of q] show ?thesis
    unfolding to_double_shape[OF False] by auto
qed

section \<open>Rounding to a double: the value 7.42\<close>

lemma dbl_exp_eq:
  assumes "2 powi e \<le> \<bar>q\<bar>" and "\<bar>q\<bar> < 2 powi (e + 1)" and "- 1022 \<le> e"
  shows "dbl_exp q = e"
  using ilog2_unique[OF assms(1,2)] assms(3) by (simp add: dbl_exp_def)

lemma round_half_even_numeral_frac:
  "round_half_even (numeral n / numeral d) =
     (let q = numeral n div numeral d; r = numeral n mod (numeral d :: int)
      in if 2 * r < numeral d then q else if numeral d < 2 * r then q + 1
         else if even q then q else q + 1)"
  using round_half_even_frac[of "numeral d" "numeral n"] by simp

lemma to_double_7_42: "to_double (742 / 100) = Finite (4177088654386135 / 562949953421312)"
proof -
  have e: "dbl_exp (371 / 50) = 2" by (rule dbl_exp_eq) simp_all
  have m: "dbl_mant (371 / 50) = 8354177308772270"
    unfolding dbl_mant_def e by (simp add: round_half_even_numeral_frac)
  show ?thesis by (simp add: to_double_def e m)
qed

lemma py_round2_7_42:
  "py_round2 (Finite (4177088654386135 / 562949953421312)) = Inr (Finite (4177088654386135 / 562949953421312))"
proof -
  have "round_half_even (4177088654386135 / 562949953421312 * 100) = 742"
    by (simp add: round_half_even_numeral_frac)
  then show ?thesis using to_double_7_42 by (simp add: py_round2_def)
qed

lemma py_float_7_42: "py_float ''7.42'' = Inr (to_double (742 / 100))"
  by (simp add: py_float_def float_strip_def float_ws_def split_sign_def parse_decimal_def
      parse_exponent_def is_digit_def digit_val_def Let_def)

section \<open>Rounding to two decimals never overflows\<close>

lemma round2_arg_near: "\<bar>of_int (round_half_even (v * 100)) / 100 - v\<bar> \<le> 1 / 200"
  using round_half_even_near[of "v * 100"] by (simp add: field_simps abs_le_iff)

lemma py_round2_of_double:
  assumes "to_double q = Finite v"
  shows "\<exists>w. py_round2 (Finite v) = Inr (Finite w) \<and>
             Finite w = to_double (of_int (round_half_even (v * 100)) / 100)"
proof -
  have "\<bar>v\<bar> \<le> max_double" using assms by (rule to_double_finite_bound)
  with round2_arg_near[of v]
  have "\<bar>of_int (round_half_even (v * 100)) / 100\<bar> \<le> max_double + 1 / 200" by linarith
  then obtain w where "to_double (of_int (round_half_even (v * 100)) / 100) = Finite w"
    using to_double_finite by blast
  then show ?thesis by (simp add: py_round2_def)
qed

lemma py_round2_special [simp]:
  "py_round2 PInf = Inr PInf" "py_round2 NInf = Inr NInf" "py_round2 NaN = Inr NaN"
  by (simp_all add: py_round2_def)

lemma py_float_cases:
  assumes "py_float s = Inr x"
  shows "(\<exists>q. x = to_double q) \<or> x = PInf \<or> x = NInf \<or> x = NaN"
  using assms
  by (auto simp: py_float_def Let_def split: if_splits prod.splits option.splits)

lemma py_round2_after_py_float:
  assumes "py_float s = Inr x"
  shows "\<exists>y. py_round2 x = Inr y"
proof -
  from py_float_cases[OF assms] consider q where "x = to_double q" | "x = PInf" | "x = NInf" | "x = NaN"
    by blast
  then show ?thesis
  proof cases
    case 1
    show ?thesis
    proof (cases x)
      case (Finite v)
      with 1 py_round2_of_double[of q v] show ?thesis by auto
    qed simp_all
  qed simp_all
qed

lemma py_round2_nonneg:
  assumes "0 \<le> q" and "py_round2 (to_double q) = Inr y"
  shows "y = PInf \<or> (\<exists>k w. 0 \<le> k \<and> 0 \<le> w \<and> y = Finite w \<and> y = to_double (of_int k / 100))"
proof -
  from to_double_nonneg_cases[OF assms(1)]
  consider "to_double q = PInf" | v where "0 \<le> v" "to_double q = Finite v" by blast
  then show ?thesis
  proof cases
    case 1
    with assms(2) show ?thesis by simp
  next
    case 2
    from py_round2_of_double[OF 2(2)] obtain w where
      w: "py_round2 (Finite v) = Inr (Finite w)"
         "Finite w = to_double (of_int (round_half_even (v * 100)) / 100)" by blast
    have k: "0 \<le> round_half_even (v * 100)" using 2(1) by (intro round_half_even_nonneg) simp
    then have "0 \<le> (of_int (round_half_even (v * 100)) / 100 :: rat)" by simp
    from to_double_nonneg[OF this w(2)[symmetric]] have "0 \<le> w" .
    with w k 2 assms(2) show ?thesis by auto
  qed
qed


section \<open>The height text of the feed pattern\<close>

lemma height_char_facts:
  assumes "is_height_char c"
  shows "c \<noteq> CHR ''_''" "\<not> float_ws c" "c \<noteq> CHR ''-''" "c \<noteq> CHR ''+''" "c \<noteq> CHR ''m''"
    "ascii_lower c = c" "\<not> is_space c"
  using assms
  by (auto simp: is_height_char_def is_digit_def float_ws_def ascii_lower_def is_space_def)

lemma underscores_ok_plain:
  "CHR ''_'' \<notin> set s \<Longrightarrow> p \<noteq> CHR ''_'' \<Longrightarrow> underscores_ok p s"
  by (induction s arbitrary: p) auto

lemma float_strip_id:
  assumes "s \<noteq> []" and "\<not> float_ws (hd s)" and "\<not> float_ws (last s)"
  shows "float_strip s = s"
proof -
  have 1: "dropWhile float_ws s = s" using assms(1,2) by (cases s) simp_all
  have "rev s \<noteq> []" "\<not> float_ws (hd (rev s))" using assms(1,3) by (simp_all add: hd_rev)
  then have 2: "dropWhile float_ws (rev s) = rev s" by (cases "rev s") simp_all
  show ?thesis by (simp add: float_strip_def 1 2)
qed

lemma parse_decimal_nonneg: "parse_decimal s = Some q \<Longrightarrow> 0 \<le> q"
  by (auto simp: parse_decimal_def Let_def split: if_splits option.splits)

lemma height_text_not_word:
  assumes "list_all is_height_char h"
  shows "map ascii_lower h \<noteq> ''inf''" "map ascii_lower h \<noteq> ''infinity''"
    "map ascii_lower h \<noteq> ''nan''"
proof -
  have low: "map ascii_lower h = h" using assms
    by (induction h) (simp_all add: height_char_facts)
  have letters: "\<not> is_height_char (CHR ''i'')" "\<not> is_height_char (CHR ''n'')"
    by (simp_all add: is_height_char_def is_digit_def)
  have "CHR ''i'' \<notin> set h" "CHR ''n'' \<notin> set h"
    using assms letters by (auto simp: list_all_iff)
  then have "h \<noteq> ''inf''" "h \<noteq> ''infinity''" "h \<noteq> ''nan''" by auto
  then show "map ascii_lower h \<noteq> ''inf''" "map ascii_lower h \<noteq> ''infinity''"
    "map ascii_lower h \<noteq> ''nan''" unfolding low by simp_all
qed

lemma py_float_height_text:
  assumes "h \<noteq> []" and "list_all is_height_char h"
  shows "py_float h = (case parse_decimal h of Some q \<Rightarrow> Inr (to_double q) | None \<Rightarrow> Inl ValueError)"
proof -
  have all: "\<And>c. c \<in> set h \<Longrightarrow> is_height_char c" using assms(2) by (simp add: list_all_iff)
  have "is_height_char (hd h)" "is_height_char (last h)" using assms(1) all by simp_all
  then have strip: "float_strip h = h"
    using assms(1) by (intro float_strip_id) (simp_all add: height_char_facts)
  have nous: "CHR ''_'' \<notin> set h" using all height_char_facts(1) by blast
  then have filt: "filter (\<lambda>c. c \<noteq> CHR ''_'') h = h" by (auto simp: filter_id_conv)
  obtain c cs where h: "h = c # cs" using assms(1) by (cases h) auto
  then have "is_height_char c" using all by simp
  then have sign: "split_sign h = (False, h)"
    unfolding h by (simp add: split_sign_def height_char_facts)
  show ?thesis
    using height_text_not_word[OF assms(2)]
    by (simp add: py_float_def strip underscores_ok_plain[OF nous] filt sign split: option.splits)
qed

lemma remove_m_height_text:
  "list_all is_height_char h \<Longrightarrow> remove_m (h @ ''m'') = h"
  by (induction h) (simp_all add: remove_m_def height_char_facts)

section \<open>The matcher and the pattern\<close>

lemma lit_Some: "lit p s = Some r \<longleftrightarrow> s = p @ r"
  by (auto simp: lit_def split: if_splits) (metis append_take_drop_id)

lemma lit_append [simp]: "lit p (p @ r) = Some r"
  by (simp add: lit_Some)

lemma ws1_sound:
  assumes "ws1 s = Some r"
  shows "\<exists>w. s = w @ r \<and> spaces1 w"
proof -
  from assms obtain c cs where s: "s = c # cs" and c: "is_space c" and r: "r = dropWhile is_space cs"
    by (auto simp: ws1_def split: list.splits if_splits)
  have "s = (c # takeWhile is_space cs) @ r" by (simp add: s r)
  moreover have "spaces1 (c # takeWhile is_space cs)"
    using c by (simp add: spaces1_def list_all_iff) (meson set_takeWhileD)
  ultimately show ?thesis by blast
qed

lemma ws1_complete:
  assumes "spaces1 w" and "r = [] \<or> \<not> is_space (hd r)"
  shows "ws1 (w @ r) = Some r"
proof -
  from assms(1) obtain c cs where w: "w = c # cs" and c: "is_space c" and cs: "list_all is_space cs"
    by (cases w) (auto simp: spaces1_def)
  have "dropWhile is_space (cs @ r) = dropWhile is_space r"
    using cs by (simp add: dropWhile_append list_all_iff)
  also have "\<dots> = r" using assms(2) by (cases r) auto
  finally show ?thesis by (simp add: ws1_def w c)
qed

lemma time_group_Some:
  "time_group s = Some (t, r) \<longleftrightarrow>
     (\<exists>a b c d. t = [a, b, CHR '':'', c, d] \<and> s = t @ r
        \<and> is_digit a \<and> is_digit b \<and> is_digit c \<and> is_digit d)"
  by (auto simp: time_group_def split: list.splits if_splits)

lemma type_group_sound:
  "type_group s = Some (ty, r) \<Longrightarrow> (ty = ''High'' \<or> ty = ''Low'') \<and> s = ty @ r"
  by (auto simp: type_group_def lit_Some split: option.splits)

lemma type_group_complete:
  "ty = ''High'' \<or> ty = ''Low'' \<Longrightarrow> type_group (ty @ r) = Some (ty, r)"
  by (auto simp: type_group_def lit_def)

lemma open_paren_sound:
  "open_paren s = Some r \<Longrightarrow> \<exists>op. (op = ''&#x28;'' \<or> op = ''('') \<and> s = op @ r"
  by (auto simp: open_paren_def lit_Some split: option.splits)

lemma open_paren_complete:
  "op = ''&#x28;'' \<or> op = ''('' \<Longrightarrow> open_paren (op @ r) = Some r"
  by (auto simp: open_paren_def lit_def)

lemma close_paren_sound:
  "close_paren s = Some r \<Longrightarrow> \<exists>cl. (cl = ''&#x29;'' \<or> cl = '')'') \<and> s = cl @ r"
  by (auto simp: close_paren_def lit_Some split: option.splits)

lemma close_paren_complete:
  "cl = ''&#x29;'' \<or> cl = '')'' \<Longrightarrow> close_paren (cl @ r) = Some r"
  by (auto simp: close_paren_def lit_def)

lemma height_group_sound:
  assumes "height_group s = Some (hs, r)"
  shows "\<exists>h. hs = h @ ''m'' \<and> h \<noteq> [] \<and> list_all is_height_char h \<and> s = hs @ r"
proof -
  let ?h = "takeWhile is_height_char s" and ?d = "dropWhile is_height_char s"
  from assms have ne: "?h \<noteq> []" and m: "take 1 ?d = ''m''" and hs: "hs = ?h @ ''m''"
    and r: "r = drop 1 ?d"
    by (auto simp: height_group_def Let_def split: if_splits)
  have "?d = take 1 ?d @ drop 1 ?d" by (simp only: append_take_drop_id)
  then have "?d = ''m'' @ r" by (simp only: m r[symmetric])
  then have "s = ?h @ ''m'' @ r" by (metis takeWhile_dropWhile_id)
  moreover have "list_all is_height_char ?h" by (simp add: list_all_iff) (meson set_takeWhileD)
  ultimately show ?thesis using ne hs by auto
qed

lemma height_group_complete:
  assumes "h \<noteq> []" and "list_all is_height_char h"
  shows "height_group (h @ ''m'' @ r) = Some (h @ ''m'', r)"
proof -
  have nm: "\<not> is_height_char (CHR ''m'')" by (simp add: is_height_char_def is_digit_def)
  have all: "\<And>x. x \<in> set h \<Longrightarrow> is_height_char x" using assms(2) by (simp add: list_all_iff)
  have t: "takeWhile is_height_char (h @ CHR ''m'' # r) = h"
    using all nm by (simp add: takeWhile_append2)
  have d: "dropWhile is_height_char (h @ CHR ''m'' # r) = CHR ''m'' # r"
    using all nm by (simp add: dropWhile_append2)
  show ?thesis by (simp add: height_group_def t d assms(1))
qed

lemma tide_match_at_sound:
  assumes "tide_match_at s = Some (t, ty, hs)"
  shows "\<exists>core post. s = core @ post \<and> spec_tide_match core t ty hs"
proof -
  from assms obtain r1 r2 r3 r4 r5 r6 r7 r8 r9 r10 r11 where
    p: "time_group s = Some (t, r1)" "ws1 r1 = Some r2" "lit ''-'' r2 = Some r3"
       "ws1 r3 = Some r4" "type_group r4 = Some (ty, r5)" "ws1 r5 = Some r6"
       "lit ''Tide'' r6 = Some r7" "ws1 r7 = Some r8" "open_paren r8 = Some r9"
       "height_group r9 = Some (hs, r10)" "close_paren r10 = Some r11"
    by (auto simp: tide_match_at_def split: Option.bind_splits)
  from p(1) obtain a b c d where t: "t = [a, b, CHR '':'', c, d]" "s = t @ r1"
    "is_digit a" "is_digit b" "is_digit c" "is_digit d" by (auto simp: time_group_Some)
  from ws1_sound[OF p(2)] obtain w1 where w1: "r1 = w1 @ r2" "spaces1 w1" by blast
  from p(3) have r2: "r2 = ''-'' @ r3" by (simp add: lit_Some)
  from ws1_sound[OF p(4)] obtain w2 where w2: "r3 = w2 @ r4" "spaces1 w2" by blast
  from type_group_sound[OF p(5)] have ty: "ty = ''High'' \<or> ty = ''Low''" "r4 = ty @ r5" by simp_all
  from ws1_sound[OF p(6)] obtain w3 where w3: "r5 = w3 @ r6" "spaces1 w3" by blast
  from p(7) have r6: "r6 = ''Tide'' @ r7" by (simp add: lit_Some)
  from ws1_sound[OF p(8)] obtain w4 where w4: "r7 = w4 @ r8" "spaces1 w4" by blast
  from open_paren_sound[OF p(9)] obtain op where op: "op = ''&#x28;'' \<or> op = ''(''" "r8 = op @ r9"
    by blast
  from height_group_sound[OF p(10)] obtain h where h: "hs = h @ ''m''" "h \<noteq> []"
    "list_all is_height_char h" "r9 = hs @ r10" by blast
  from close_paren_sound[OF p(11)] obtain cl where cl: "cl = ''&#x29;'' \<or> cl = '')''" "r10 = cl @ r11"
    by blast
  let ?core = "t @ w1 @ ''-'' @ w2 @ ty @ w3 @ ''Tide'' @ w4 @ op @ hs @ cl"
  have "s = ?core @ r11"
    by (simp only: t(2) w1(1) r2 w2(1) ty(2) w3(1) r6 w4(1) op(2) h(4) cl(2) append_assoc)
  moreover have "spec_tide_match ?core t ty hs"
    unfolding spec_tide_match_def
    using t(1,3-6) w1(2) w2(2) w3(2) w4(2) ty(1) op(1) h(1-3) cl(1) by blast
  ultimately show ?thesis by blast
qed

lemma spaces1_not_nil: "spaces1 w \<Longrightarrow> w \<noteq> []"
  by (simp add: spaces1_def)

lemma tide_match_at_complete:
  assumes "spec_tide_match core t ty hs"
  shows "tide_match_at (core @ post) = Some (t, ty, hs)"
proof -
  from assms obtain a b c d w1 w2 w3 w4 op h cl where
    core: "core = t @ w1 @ ''-'' @ w2 @ ty @ w3 @ ''Tide'' @ w4 @ op @ hs @ cl"
    and t: "t = [a, b, CHR '':'', c, d]" "is_digit a" "is_digit b" "is_digit c" "is_digit d"
    and w: "spaces1 w1" "spaces1 w2" "spaces1 w3" "spaces1 w4"
    and ty: "ty = ''High'' \<or> ty = ''Low''"
    and op: "op = ''&#x28;'' \<or> op = ''(''"
    and h: "hs = h @ ''m''" "h \<noteq> []" "list_all is_height_char h"
    and cl: "cl = ''&#x29;'' \<or> cl = '')''"
    unfolding spec_tide_match_def by blast
  have ns: "\<not> is_space (CHR ''-'')" "\<not> is_space (CHR ''H'')" "\<not> is_space (CHR ''L'')"
    "\<not> is_space (CHR ''T'')" "\<not> is_space (CHR ''&'')" "\<not> is_space (CHR ''('')"
    by (simp_all add: is_space_def)
  define r11 where "r11 = post"
  define r10 where "r10 = cl @ r11"
  define r9 where "r9 = h @ ''m'' @ r10"
  define r8 where "r8 = op @ r9"
  define r7 where "r7 = w4 @ r8"
  define r6 where "r6 = ''Tide'' @ r7"
  define r5 where "r5 = w3 @ r6"
  define r4 where "r4 = ty @ r5"
  define r3 where "r3 = w2 @ r4"
  define r2 where "r2 = ''-'' @ r3"
  define r1 where "r1 = w1 @ r2"
  have s: "core @ post = t @ r1"
    by (simp add: core h(1) r1_def r2_def r3_def r4_def r5_def r6_def r7_def r8_def r9_def
        r10_def r11_def)
  have 1: "time_group (t @ r1) = Some (t, r1)" using t by (simp add: time_group_def)
  have 2: "ws1 r1 = Some r2" unfolding r1_def
    by (rule ws1_complete[OF w(1)]) (simp add: r2_def ns)
  have 3: "lit ''-'' r2 = Some r3" unfolding r2_def by (rule lit_append)
  have 4: "ws1 r3 = Some r4" unfolding r3_def
    by (rule ws1_complete[OF w(2)]) (use ty in \<open>auto simp: r4_def ns\<close>)
  have 5: "type_group r4 = Some (ty, r5)" unfolding r4_def by (rule type_group_complete[OF ty])
  have 6: "ws1 r5 = Some r6" unfolding r5_def
    by (rule ws1_complete[OF w(3)]) (simp add: r6_def ns)
  have 7: "lit ''Tide'' r6 = Some r7" unfolding r6_def by (rule lit_append)
  have 8: "ws1 r7 = Some r8" unfolding r7_def
    by (rule ws1_complete[OF w(4)]) (use op in \<open>auto simp: r8_def ns\<close>)
  have 9: "open_paren r8 = Some r9" unfolding r8_def by (rule open_paren_complete[OF op])
  have 10: "height_group r9 = Some (hs, r10)" unfolding r9_def h(1)
    by (rule height_group_complete[OF h(2,3)])
  have 11: "close_paren r10 = Some r11" unfolding r10_def by (rule close_paren_complete[OF cl])
  show ?thesis unfolding s tide_match_at_def by (simp add: 1 2 3 4 5 6 7 8 9 10 11)
qed

lemma re_search_tide_sound:
  assumes "re_search_tide s = Some (t, ty, hs)"
  shows "\<exists>pre core post. s = pre @ core @ post \<and> spec_tide_match core t ty hs"
  using assms
proof (induction s)
  case Nil
  then show ?case by simp
next
  case (Cons x xs)
  show ?case
  proof (cases "tide_match_at (x # xs)")
    case None
    with Cons.prems have "re_search_tide xs = Some (t, ty, hs)" by simp
    from Cons.IH[OF this] obtain pre core post where
      "xs = pre @ core @ post" "spec_tide_match core t ty hs" by blast
    then have "x # xs = (x # pre) @ core @ post \<and> spec_tide_match core t ty hs" by simp
    then show ?thesis by blast
  next
    case (Some g)
    with Cons.prems have "tide_match_at (x # xs) = Some (t, ty, hs)" by simp
    from tide_match_at_sound[OF this] obtain core post where
      "x # xs = [] @ core @ post" "spec_tide_match core t ty hs" by auto
    then show ?thesis by blast
  qed
qed

lemma re_search_tide_append:
  "tide_match_at s \<noteq> None \<Longrightarrow> re_search_tide (pre @ s) \<noteq> None"
proof (induction pre)
  case Nil
  then show ?case by (cases s) (auto simp: tide_match_at_def time_group_def)
next
  case (Cons x pre)
  then show ?case by (auto split: option.splits)
qed

lemma re_search_tide_None_iff: "re_search_tide s = None \<longleftrightarrow> \<not> spec_tide_line s"
proof
  assume n: "re_search_tide s = None"
  show "\<not> spec_tide_line s"
  proof
    assume "spec_tide_line s"
    then obtain pre core post t ty hs where
      s: "s = pre @ core @ post" and m: "spec_tide_match core t ty hs"
      unfolding spec_tide_line_def by blast
    from tide_match_at_complete[OF m, of post] have "tide_match_at (core @ post) \<noteq> None" by simp
    from re_search_tide_append[OF this, of pre] n s show False by simp
  qed
next
  assume ns: "\<not> spec_tide_line s"
  show "re_search_tide s = None"
  proof (rule ccontr)
    assume "re_search_tide s \<noteq> None"
    then obtain t ty hs where "re_search_tide s = Some (t, ty, hs)" by (cases "re_search_tide s") auto
    from re_search_tide_sound[OF this] ns show False unfolding spec_tide_line_def by blast
  qed
qed

section \<open>The loops\<close>

lemma for_each_total:
  assumes "\<And>x. x \<in> set xs \<Longrightarrow> \<exists>rs lg. f x = (Inr rs, lg)"
  shows "\<exists>rs lg. for_each f xs = (Inr rs, lg)"
  using assms
proof (induction xs)
  case Nil
  then show ?case by simp
next
  case (Cons x xs)
  from Cons.prems[of x] obtain rs lg where x: "f x = (Inr rs, lg)" by auto
  from Cons.IH Cons.prems obtain rs' lg' where "for_each f xs = (Inr rs', lg')" by auto
  with x show ?case by simp
qed

lemma for_each_records:
  assumes "for_each f xs = (Inr rs, lg)" and "r \<in> set rs"
  shows "\<exists>x \<in> set xs. \<exists>rs' lg'. f x = (Inr rs', lg') \<and> r \<in> set rs'"
  using assms
proof (induction xs arbitrary: rs lg)
  case Nil
  then show ?case by simp
next
  case (Cons x xs)
  from Cons.prems(1) obtain rs1 lg1 rs2 lg2 where
    x: "f x = (Inr rs1, lg1)" and xs: "for_each f xs = (Inr rs2, lg2)" and rs: "rs = rs1 @ rs2"
    by (auto split: prod.splits sum.splits)
  from Cons.prems(2) rs consider "r \<in> set rs1" | "r \<in> set rs2" by auto
  then show ?case
  proof cases
    case 1
    with x show ?thesis by auto
  next
    case 2
    from Cons.IH[OF xs 2] show ?thesis by auto
  qed
qed

lemma for_each_skip:
  assumes "f x = (Inr [], [])"
  shows "for_each f (xs @ x # ys) = for_each f (xs @ ys)"
  by (induction xs) (simp_all add: assms split: prod.splits sum.splits)

section \<open>The feed pipeline raises nothing and keeps what it parsed\<close>

lemma py_float_Inl: "py_float s = Inl e \<Longrightarrow> e = ValueError"
  by (auto simp: py_float_def Let_def split: if_splits prod.splits option.splits)

lemma datetime_new_Inl: "datetime_new y m d = Inl e \<Longrightarrow> e = ValueError"
  by (auto simp: datetime_new_def split: if_splits)

lemma replace_time_Inl: "replace_time dt h mi = Inl e \<Longrightarrow> e = ValueError"
  by (auto simp: replace_time_def split: if_splits)

lemma isoformat_Inl: "isoformat tz dt = Inl e \<Longrightarrow> e = ValueError"
  by (auto simp: isoformat_def Let_def split: if_splits)

lemma bind_err_Inl:
  "bind_err m f = Inl e \<longleftrightarrow> m = Inl e \<or> (\<exists>x. m = Inr x \<and> f x = Inl e)"
  by (cases m) auto

lemma bind_err_Inr:
  "bind_err m f = Inr y \<longleftrightarrow> (\<exists>x. m = Inr x \<and> f x = Inr y)"
  by (cases m) auto

lemma feed_try_Inl:
  assumes "feed_try tz dtup g = Inl e"
  shows "e = ValueError"
proof -
  obtain t ty hs where g: "g = (t, ty, hs)" by (cases g)
  obtain y m d where dtup: "dtup = (y, m, d)" by (cases dtup)
  from assms show ?thesis
    unfolding feed_try_def g dtup
    by (auto simp: bind_err_Inl Let_def
        dest: py_float_Inl datetime_new_Inl replace_time_Inl isoformat_Inl
        dest!: py_round2_after_py_float)
qed

lemma feed_try_Inr:
  assumes "feed_try tz (y, m, d) (t, ty, hs) = Inr r"
  shows "tide_type r = ty"
    and "\<exists>x. py_float (remove_m hs) = Inr x \<and> py_round2 x = Inr (height_m r)"
    and "\<exists>dt0 dt. datetime_new y m d = Inr dt0
           \<and> replace_time dt0 (int (py_int (takeWhile (\<lambda>c. c \<noteq> CHR '':'') t)))
                (int (py_int (drop 1 (dropWhile (\<lambda>c. c \<noteq> CHR '':'') t)))) = Inr dt
           \<and> isoformat tz dt = Inr (tide_time r)"
  using assms unfolding feed_try_def
  by (auto simp: bind_err_Inr Let_def)

lemma feed_line_total: "\<exists>rs lg. feed_line tz dtup raw = (Inr rs, lg)"
  by (auto simp: feed_line_def Let_def split: option.splits sum.splits dest: feed_try_Inl)

lemma feed_line_records:
  assumes "feed_line tz dtup raw = (Inr rs, lg)" and "r \<in> set rs"
  shows "\<exists>g. re_search_tide (strip raw) = Some g \<and> feed_try tz dtup g = Inr r"
  using assms
  by (auto simp: feed_line_def Let_def split: option.splits sum.splits if_splits)

lemma feed_entry_total: "\<exists>rs lg. feed_entry tz e = (Inr rs, lg)"
  unfolding feed_entry_def Let_def
  by (cases "published_parsed e") (auto intro: for_each_total feed_line_total)

lemma feed_entry_records:
  assumes "feed_entry tz e = (Inr rs, lg)" and "r \<in> set rs"
  shows "\<exists>dtup raw g. published_parsed e = Some dtup
           \<and> re_search_tide (strip raw) = Some g \<and> feed_try tz dtup g = Inr r"
proof (cases "published_parsed e")
  case None
  with assms show ?thesis by (simp add: feed_entry_def)
next
  case (Some dtup)
  with assms(1) have "for_each (feed_line tz dtup)
      (splitlines (re_sub_tags (case description e of None \<Rightarrow> [] | Some s \<Rightarrow> s))) = (Inr rs, lg)"
    by (simp add: feed_entry_def)
  from for_each_records[OF this assms(2)] obtain raw rs' lg' where
    "feed_line tz dtup raw = (Inr rs', lg')" "r \<in> set rs'" by blast
  from feed_line_records[OF this] Some show ?thesis by blast
qed

lemma dict_set_values: "x \<in> set (dict_set d k v) \<Longrightarrow> snd x = v \<or> x \<in> set d"
  by (induction d) (auto split: if_splits)

lemma dict_fold_values:
  "x \<in> set (foldl (\<lambda>d r. dict_set d (f r) r) d rs) \<Longrightarrow> snd x \<in> set rs \<or> x \<in> set d"
proof (induction rs arbitrary: d)
  case Nil
  then show ?case by simp
next
  case (Cons r rs)
  from Cons.prems have "x \<in> set (foldl (\<lambda>d r. dict_set d (f r) r) (dict_set d (f r) r) rs)"
    by simp
  from Cons.IH[OF this] dict_set_values[of x d "f r" r] show ?case by auto
qed

lemma unique_records_subset: "set (unique_records rs) \<subseteq> set rs"
  using dict_fold_values[of _ tide_time "[]" rs] by (auto simp: unique_records_def)

lemma parse_tide_feed_total: "\<exists>rs lg. parse_tide_feed tz es = (Inr rs, lg)"
proof -
  obtain rs lg where "for_each (feed_entry tz) es = (Inr rs, lg)"
    using for_each_total[of es "feed_entry tz"] feed_entry_total by blast
  then show ?thesis by (simp add: parse_tide_feed_def)
qed

lemma parse_tide_feed_records:
  assumes "parse_tide_feed tz es = (Inr rs, lg)" and "r \<in> set rs"
  shows "\<exists>dtup raw g. re_search_tide (strip raw) = Some g \<and> feed_try tz dtup g = Inr r"
proof -
  from assms obtain recs lg' where
    fe: "for_each (feed_entry tz) es = (Inr recs, lg')"
    and rs: "rs = sort_key tide_time (unique_records recs)"
    by (auto simp: parse_tide_feed_def split: if_splits prod.splits sum.splits)
  from assms(2) rs have "r \<in> set recs" using unique_records_subset[of recs] by auto
  from for_each_records[OF fe this] obtain e rs' lg'' where
    "feed_entry tz e = (Inr rs', lg'')" "r \<in> set rs'" by blast
  from feed_entry_records[OF this] show ?thesis by blast
qed

end
